theory Spec2Isabelle
  imports Complex_Main "HOL-Library.Word" "HOL-Library.Multiset" "HOL-Library.Log_Nat"
begin

section \<open>Data model\<close>

text \<open>
  The two programs \<^verbatim>\<open>mq_benchmark.cpp\<close> and \<^verbatim>\<open>gcd_benchmark.cpp\<close> share their data
  types. \<^verbatim>\<open>uint64_t\<close> is a 64-bit word; \<^verbatim>\<open>size_t\<close> is taken as 64 bits wide too (LP64, the
  platforms of POSIX message queues and of libdispatch), so that \<^verbatim>\<open>index < capacity\<close>
  compares two unsigned 64-bit values.
\<close>

type_synonym u64 = "64 word"
type_synonym u8 = "8 word"

subsection \<open>LatencyRecorder\<close>

text \<open>
  \<^verbatim>\<open>struct LatencyRecorder { vector<uint64_t> samplesNs; size_t capacity; mutex mtx;
  mt19937_64 rng; atomic<uint64_t> seen{0}; }\<close>.
  The generator state is kept abstract (type \<open>'g\<close>). The mutex has no content in a
  sequential model: every call of \<open>record\<close> runs to its end before the next one starts.
\<close>

record 'g LatencyRecorder =
  samplesNs :: "u64 list"
  capacity :: u64
  rng :: 'g
  seen :: u64

text \<open>
  The constructor \<^verbatim>\<open>LatencyRecorder(size_t cap) : capacity(cap), rng(random_device{}())\<close>;
  the entropy read from \<^verbatim>\<open>random_device\<close> is the argument \<open>seed\<close>.
  \<^verbatim>\<open>reserve\<close> does not change the contents of the vector.
\<close>

definition new_LatencyRecorder :: "u64 \<Rightarrow> 'g \<Rightarrow> 'g LatencyRecorder" where
  "new_LatencyRecorder cap seed =
     \<lparr>samplesNs = [], capacity = cap, rng = seed, seen = 0\<rparr>"

text \<open>
  \<^verbatim>\<open>uniform_int_distribution<uint64_t> dist(0, index); uint64_t pos = dist(rng);\<close>
  is the parameter \<open>draw\<close>: from the generator state and the upper bound \<open>index\<close> it gives
  the number drawn and the generator state after the draw.
\<close>

type_synonym 'g uniform_dist = "'g \<Rightarrow> u64 \<Rightarrow> u64 \<times> 'g"

text \<open>\<^verbatim>\<open>LatencyRecorder::record\<close> of \<^verbatim>\<open>gcd_benchmark.cpp\<close> (lines 70 to 88).\<close>

definition record_gcd :: "'g uniform_dist \<Rightarrow> 'g LatencyRecorder \<Rightarrow> u64 \<Rightarrow> 'g LatencyRecorder" where
  "record_gcd draw r valueNs =
     (let index = seen r;
          r1 = r\<lparr>seen := seen r + 1\<rparr>
      in if capacity r1 = 0 then r1
         else if index < capacity r1 then
           (if length (samplesNs r1) < unat (capacity r1)
            then r1\<lparr>samplesNs := samplesNs r1 @ [valueNs]\<rparr>
            else r1)
         else
           (let (pos, g) = draw (rng r1) index;
                r2 = r1\<lparr>rng := g\<rparr>
            in if pos < capacity r2 then
                 (if unat pos < length (samplesNs r2)
                  then r2\<lparr>samplesNs := (samplesNs r2)[unat pos := valueNs]\<rparr>
                  else r2)
               else r2))"

text \<open>
  \<^verbatim>\<open>LatencyRecorder::record\<close> of \<^verbatim>\<open>mq_benchmark.cpp\<close> (lines 82 to 106). It differs
  from the other one in the branch taken when \<^verbatim>\<open>index < capacity\<close> and the vector is
  already full: a position is drawn and overwritten. There
  \<^verbatim>\<open>samplesNs[pos]\<close> is in range, since \<^verbatim>\<open>pos < capacity <= samplesNs.size()\<close>.
\<close>

definition record_mq :: "'g uniform_dist \<Rightarrow> 'g LatencyRecorder \<Rightarrow> u64 \<Rightarrow> 'g LatencyRecorder" where
  "record_mq draw r valueNs =
     (let index = seen r;
          r1 = r\<lparr>seen := seen r + 1\<rparr>
      in if capacity r1 = 0 then r1
         else if index < capacity r1 then
           (if length (samplesNs r1) < unat (capacity r1)
            then r1\<lparr>samplesNs := samplesNs r1 @ [valueNs]\<rparr>
            else
              (let (pos, g) = draw (rng r1) index;
                   r2 = r1\<lparr>rng := g\<rparr>
               in if pos < capacity r2
                  then r2\<lparr>samplesNs := (samplesNs r2)[unat pos := valueNs]\<rparr>
                  else r2))
         else
           (let (pos, g) = draw (rng r1) index;
                r2 = r1\<lparr>rng := g\<rparr>
            in if pos < capacity r2 then
                 (if unat pos < length (samplesNs r2)
                  then r2\<lparr>samplesNs := (samplesNs r2)[unat pos := valueNs]\<rparr>
                  else r2)
               else r2))"

text \<open>A single-threaded sequence of calls, in the order of the list.\<close>

definition run_gcd :: "'g uniform_dist \<Rightarrow> 'g LatencyRecorder \<Rightarrow> u64 list \<Rightarrow> 'g LatencyRecorder" where
  "run_gcd draw r vs = foldl (record_gcd draw) r vs"

definition run_mq :: "'g uniform_dist \<Rightarrow> 'g LatencyRecorder \<Rightarrow> u64 list \<Rightarrow> 'g LatencyRecorder" where
  "run_mq draw r vs = foldl (record_mq draw) r vs"

text \<open>
  The states a single-threaded run can be in after \<open>n\<close> calls on a fresh recorder:
  \<open>seen\<close> is \<open>n\<close> modulo \<open>2 ^ 64\<close> and the vector holds \<open>min n capacity\<close> samples.
\<close>

definition after_calls :: "nat \<Rightarrow> 'g LatencyRecorder \<Rightarrow> bool" where
  "after_calls n r \<longleftrightarrow>
     seen r = of_nat n \<and> length (samplesNs r) = min n (unat (capacity r))"

text \<open>
  The same without the number of calls, for a run that has not wrapped \<open>seen\<close> around.
\<close>

definition sequential_state :: "'g LatencyRecorder \<Rightarrow> bool" where
  "sequential_state r \<longleftrightarrow>
     length (samplesNs r) = min (unat (seen r)) (unat (capacity r))"

text \<open>
  An example generator for concrete runs: the state is a counter, the number drawn is the
  counter reduced into \<open>[0, hi]\<close>.
\<close>

definition counter_dist :: "u64 uniform_dist" where
  "counter_dist g hi = (if g \<le> hi then g else 0, g + 1)"

text \<open>
  What one call does according to claim C1, for a recorder with a capacity other
  than 0: \<open>seen\<close> is read and incremented; below the capacity the value is appended if
  the vector is not full; from the capacity on, a number \<open>pos\<close> in \<open>[0, i]\<close> is drawn
  and position \<open>pos\<close> is overwritten exactly when \<open>pos < capacity\<close>.
\<close>

definition record_claim ::
  "'g uniform_dist \<Rightarrow> 'g LatencyRecorder \<Rightarrow> u64 \<Rightarrow> 'g LatencyRecorder \<Rightarrow> bool" where
  "record_claim draw r v r' \<longleftrightarrow>
     (let i = seen r; pos = fst (draw (rng r) i); g = snd (draw (rng r) i)
      in seen r' = i + 1 \<and> capacity r' = capacity r \<and>
         (if i < capacity r then
            rng r' = rng r \<and>
            samplesNs r' =
              (if length (samplesNs r) < unat (capacity r) then samplesNs r @ [v]
               else samplesNs r)
          else
            pos \<le> i \<and> rng r' = g \<and>
            (if pos < capacity r
             then unat pos < length (samplesNs r) \<and> samplesNs r' = (samplesNs r)[unat pos := v]
             else samplesNs r' = samplesNs r)))"

subsection \<open>The two steps of a call\<close>

text \<open>
  Between threads only \<^verbatim>\<open>seen.fetch_add(1)\<close> and the sections under the mutex are
  atomic. \<open>fetch_index\<close> is the first statement of \<open>record\<close>: it gives the index and
  leaves \<open>seen\<close> incremented. \<open>store_gcd\<close> and \<open>store_mq\<close> are the rest of the two
  functions, run with the index the thread has got. A call is the one after the other
  (\<open>record_gcd_split\<close>, \<open>record_mq_split\<close> below); with several consumer threads the
  first steps of other calls can come in between.
\<close>

definition fetch_index :: "'g LatencyRecorder \<Rightarrow> u64 \<times> 'g LatencyRecorder" where
  "fetch_index r = (seen r, r\<lparr>seen := seen r + 1\<rparr>)"

definition store_gcd :: "'g uniform_dist \<Rightarrow> u64 \<Rightarrow> 'g LatencyRecorder \<Rightarrow> u64 \<Rightarrow> 'g LatencyRecorder" where
  "store_gcd draw index r1 valueNs =
     (if capacity r1 = 0 then r1
      else if index < capacity r1 then
        (if length (samplesNs r1) < unat (capacity r1)
         then r1\<lparr>samplesNs := samplesNs r1 @ [valueNs]\<rparr>
         else r1)
      else
        (let (pos, g) = draw (rng r1) index;
             r2 = r1\<lparr>rng := g\<rparr>
         in if pos < capacity r2 then
              (if unat pos < length (samplesNs r2)
               then r2\<lparr>samplesNs := (samplesNs r2)[unat pos := valueNs]\<rparr>
               else r2)
            else r2))"

definition store_mq :: "'g uniform_dist \<Rightarrow> u64 \<Rightarrow> 'g LatencyRecorder \<Rightarrow> u64 \<Rightarrow> 'g LatencyRecorder" where
  "store_mq draw index r1 valueNs =
     (if capacity r1 = 0 then r1
      else if index < capacity r1 then
        (if length (samplesNs r1) < unat (capacity r1)
         then r1\<lparr>samplesNs := samplesNs r1 @ [valueNs]\<rparr>
         else
           (let (pos, g) = draw (rng r1) index;
                r2 = r1\<lparr>rng := g\<rparr>
            in if pos < capacity r2
               then r2\<lparr>samplesNs := (samplesNs r2)[unat pos := valueNs]\<rparr>
               else r2))
      else
        (let (pos, g) = draw (rng r1) index;
             r2 = r1\<lparr>rng := g\<rparr>
         in if pos < capacity r2 then
              (if unat pos < length (samplesNs r2)
               then r2\<lparr>samplesNs := (samplesNs r2)[unat pos := valueNs]\<rparr>
               else r2)
            else r2))"

text \<open>
  What one call does on a recorder with a capacity other than 0, in any state: as
  \<open>record_claim\<close>, but position \<open>pos\<close> is overwritten only if the vector is that long
  (the test \<^verbatim>\<open>pos < samplesNs.size()\<close>), and a call with an index below the capacity
  that finds the vector full does not make it longer.
\<close>

definition record_effect ::
  "'g uniform_dist \<Rightarrow> 'g LatencyRecorder \<Rightarrow> u64 \<Rightarrow> 'g LatencyRecorder \<Rightarrow> bool" where
  "record_effect draw r v r' \<longleftrightarrow>
     (let i = seen r; pos = fst (draw (rng r) i); g = snd (draw (rng r) i)
      in seen r' = i + 1 \<and> capacity r' = capacity r \<and>
         (if i < capacity r then
            (if length (samplesNs r) < unat (capacity r)
             then rng r' = rng r \<and> samplesNs r' = samplesNs r @ [v]
             else length (samplesNs r') = length (samplesNs r))
          else
            pos \<le> i \<and> rng r' = g \<and>
            samplesNs r' =
              (if pos < capacity r \<and> unat pos < length (samplesNs r)
               then (samplesNs r)[unat pos := v]
               else samplesNs r)))"

subsection \<open>Uniform draws\<close>


text \<open>
  The tapes for \<open>m\<close> consecutive draws, the first with bounds \<open>[0, i]\<close>, the next with
  \<open>[0, i + 1]\<close>, and so on: every admissible sequence of draws, once (\<open>set_tapes\<close> and
  \<open>distinct_tapes\<close> below). Draws that are uniform and independent make these tapes
  equally likely.
\<close>

fun tapes :: "nat \<Rightarrow> nat \<Rightarrow> u64 list list" where
  "tapes i 0 = [[]]"
| "tapes i (Suc m) =
     concat (map (\<lambda>pos. map ((#) (of_nat pos)) (tapes (Suc i) m)) [0..<Suc i])"





subsection \<open>Percentiles\<close>

text \<open>
  \<^verbatim>\<open>computePercentiles\<close> is the same text in both programs (\<^verbatim>\<open>mq_benchmark.cpp\<close> lines 271
  to 287, \<^verbatim>\<open>gcd_benchmark.cpp\<close> lines 91 to 107). It is modelled twice. Here its
  \<^verbatim>\<open>double\<close> values are real numbers and every operation is exact: this is the formula
  the program evaluates, and what it returns differs from these values by the rounding
  of IEEE 754 arithmetic only (of the constants \<^verbatim>\<open>0.90\<close>, \<^verbatim>\<open>0.95\<close>, \<^verbatim>\<open>0.99\<close>,
  \<^verbatim>\<open>0.999\<close>, of the products and sums, and of the conversion of a sample above
  \<open>2 ^ 53\<close>). The subsection on binary64 below models the same text with that rounding.

  The lambda \<^verbatim>\<open>at\<close>, with the vector it captures as first argument.
  \<^verbatim>\<open>static_cast<size_t>(pos)\<close> truncates; \<open>pos\<close> is never negative at the calls the
  program makes, where truncation is the floor. The two reads \<^verbatim>\<open>dataNs[idx]\<close> and
  \<^verbatim>\<open>dataNs[idx2]\<close> are unchecked in the source; \<open>at_pct_indices\<close> below shows them in
  range for every \<open>pct\<close> in \<open>[0, 1]\<close>.
\<close>

definition at_pct :: "u64 list \<Rightarrow> real \<Rightarrow> real" where
  "at_pct dataNs pct =
     (if dataNs = [] then 0
      else
        (let pos = pct * real (length dataNs - 1);
             idx = nat \<lfloor>pos\<rfloor>;
             idx2 = min (idx + 1) (length dataNs - 1);
             frac = pos - real idx;
             vNs = real (unat (dataNs ! idx)) * (1 - frac) + real (unat (dataNs ! idx2)) * frac
         in vNs / 1000))"

text \<open>\<^verbatim>\<open>const double pcts[] = {0.5, 0.90, 0.95, 0.99, 0.999};\<close>\<close>

definition pcts :: "real list" where
  "pcts = [0.5, 0.90, 0.95, 0.99, 0.999]"

text \<open>
  \<^verbatim>\<open>computePercentiles(dataNs, outPctToUs)\<close> sorts \<open>dataNs\<close> in place and appends to
  \<open>outPctToUs\<close>; the model returns both vectors as they are after the call.
\<close>

definition computePercentiles ::
  "u64 list \<Rightarrow> (real \<times> real) list \<Rightarrow> u64 list \<times> (real \<times> real) list" where
  "computePercentiles dataNs outPctToUs =
     (if dataNs = [] then (dataNs, outPctToUs)
      else
        (let sorted_data = sort dataNs
         in (sorted_data, outPctToUs @ map (\<lambda>p. (p, at_pct sorted_data p)) pcts)))"

text \<open>
  The quantile as the specification words it: with \<open>p = q (n - 1)\<close>, the linear
  interpolation between the order statistics at \<open>\<lfloor>p\<rfloor>\<close> and \<open>\<lceil>p\<rceil>\<close>, weighted by the
  fractional part of \<open>p\<close>, divided by 1000. The argument \<open>s\<close> is the sorted sample.
\<close>

definition spec_quantile :: "u64 list \<Rightarrow> real \<Rightarrow> real" where
  "spec_quantile s q =
     (let p = q * real (length s - 1);
          lo = real (unat (s ! nat \<lfloor>p\<rfloor>));
          hi = real (unat (s ! nat \<lceil>p\<rceil>))
      in (lo + frac p * (hi - lo)) / 1000)"

text \<open>The sample at an index, as the real number it is converted to.\<close>

definition sample_value :: "u64 list \<Rightarrow> nat \<Rightarrow> real" where
  "sample_value s i = real (unat (s ! i))"

subsection \<open>Percentiles in binary64\<close>

text \<open>
  The same function with the arithmetic of \<^verbatim>\<open>double\<close>: IEEE 754 binary64, every operation
  and every conversion rounded to the nearest value of 53 significant bits, ties to the
  even one. This is what the x86-64 targets of the program compute (SSE2 arithmetic, one
  rounding per operation, no fused multiply-add). Results are taken to lie in the normal
  range of the format, which holds for everything \<^verbatim>\<open>at\<close> computes: there is no overflow
  and no subnormal result.

  \<open>round_half_even\<close> rounds a real to the nearest integer, a tie to the even one.
  \<open>binade x\<close> is the exponent \<open>e\<close> with \<open>2 ^ e \<le> \<bar>x\<bar> < 2 ^ (e + 1)\<close> (\<open>binade_bounds\<close>
  below), found from the bit length of an integer, and \<open>ulp x\<close> is the spacing
  \<open>2 ^ (e - 52)\<close> of the binary64 values there. \<open>binary64 x\<close> is the multiple of \<open>ulp x\<close>
  nearest to \<open>x\<close> (\<open>binary64_near\<close>, \<open>binary64_significand\<close>).
\<close>

definition round_half_even :: "real \<Rightarrow> int" where
  "round_half_even y =
     (let f = \<lfloor>y\<rfloor>; d = y - of_int f
      in if d < 1 / 2 then f else if 1 / 2 < d then f + 1 else if even f then f else f + 1)"

definition binade :: "real \<Rightarrow> int" where
  "binade x =
     (if 1 \<le> \<bar>x\<bar> then bitlen \<lfloor>\<bar>x\<bar>\<rfloor> - 1
      else - bitlen (\<lceil>1 / \<bar>x\<bar>\<rceil> - 1))"

definition ulp :: "real \<Rightarrow> real" where
  "ulp x = (let e = binade x in if 52 \<le> e then 2 ^ nat (e - 52) else 1 / 2 ^ nat (52 - e))"

definition binary64 :: "real \<Rightarrow> real" where
  "binary64 x = (if x = 0 then 0 else of_int (round_half_even (x / ulp x)) * ulp x)"

text \<open>
  The lambda \<^verbatim>\<open>at\<close> once more, every step rounded: the conversion of
  \<^verbatim>\<open>dataNs.size() - 1\<close>, the product with \<open>pct\<close>, the conversion of \<open>idx\<close>, the
  difference, the conversions of the two samples, \<^verbatim>\<open>1.0 - frac\<close>, the two products, the
  sum and the division by \<^verbatim>\<open>1000.0\<close>. \<open>at_pct\<close> above is this function with every
  \<open>binary64\<close> left out.
\<close>

definition at_binary64 :: "u64 list \<Rightarrow> real \<Rightarrow> real" where
  "at_binary64 dataNs pct =
     (if dataNs = [] then 0
      else
        (let pos = binary64 (pct * binary64 (real (length dataNs - 1)));
             idx = nat \<lfloor>pos\<rfloor>;
             idx2 = min (idx + 1) (length dataNs - 1);
             frac = binary64 (pos - binary64 (real idx));
             vNs = binary64
                     (binary64 (binary64 (real (unat (dataNs ! idx))) * binary64 (1 - frac)) +
                      binary64 (binary64 (real (unat (dataNs ! idx2))) * frac))
         in binary64 (vNs / 1000)))"

text \<open>
  \<^verbatim>\<open>computePercentiles\<close> with this \<^verbatim>\<open>at\<close>; the constants of \<^verbatim>\<open>pcts\<close> are the binary64
  values nearest to the decimal literals.
\<close>

definition computePercentiles_binary64 ::
  "u64 list \<Rightarrow> (real \<times> real) list \<Rightarrow> u64 list \<times> (real \<times> real) list" where
  "computePercentiles_binary64 dataNs outPctToUs =
     (if dataNs = [] then (dataNs, outPctToUs)
      else
        (let sorted_data = sort dataNs
         in (sorted_data,
             outPctToUs @ map (\<lambda>p. (p, at_binary64 sorted_data p)) (map binary64 pcts))))"

subsection \<open>Configuration, counters and messages\<close>

type_synonym u32 = "32 word"

text \<open>
  \<^verbatim>\<open>struct Config\<close> of \<^verbatim>\<open>mq_benchmark.cpp\<close>. \<^verbatim>\<open>int\<close> is a 32-bit and \<^verbatim>\<open>long\<close> a 64-bit
  two's complement value, read with \<open>sint\<close>.
\<close>

record Config =
  queueName :: string
  durationSeconds :: "32 word"
  messageSize :: u64
  maxMessages :: "64 word"
  producers :: "32 word"
  consumers :: "32 word"
  unlinkAtStart :: bool
  unlinkAtEnd :: bool
  nonBlocking :: bool
  randomPayload :: bool
  latencySample :: u64
  printIntervalSeconds :: "32 word"
  csvPath :: string

text \<open>
  \<^verbatim>\<open>struct Stats\<close>: atomic 64-bit counters. \<^verbatim>\<open>gcd_benchmark.cpp\<close> has the first four,
  \<^verbatim>\<open>mq_benchmark.cpp\<close> the same four followed by four counters of failures.
\<close>

record gcd_Stats =
  sentMessages :: u64
  sentBytes :: u64
  recvMessages :: u64
  recvBytes :: u64

record Stats = gcd_Stats +
  sendErrors :: u64
  recvErrors :: u64
  sendEagain :: u64
  recvEagain :: u64

text \<open>\<^verbatim>\<open>Stats stats;\<close>: every counter starts at 0.\<close>

definition new_gcd_Stats :: gcd_Stats where
  "new_gcd_Stats = \<lparr>sentMessages = 0, sentBytes = 0, recvMessages = 0, recvBytes = 0\<rparr>"

definition new_Stats :: Stats where
  "new_Stats =
     \<lparr>sentMessages = 0, sentBytes = 0, recvMessages = 0, recvBytes = 0,
      sendErrors = 0, recvErrors = 0, sendEagain = 0, recvEagain = 0\<rparr>"

text \<open>\<^verbatim>\<open>struct MsgHeader { uint64_t sequence; uint64_t sendTimeNs; }\<close>, 16 bytes.\<close>

record MsgHeader =
  sequence :: u64
  sendTimeNs :: u64

definition sizeof_MsgHeader :: u64 where
  "sizeof_MsgHeader = 16"

text \<open>
  A worker's \<^verbatim>\<open>vector<uint8_t> buffer(cfg.messageSize, 0)\<close> together with its
  \<^verbatim>\<open>MsgHeader* header\<close>, which points at the start of the buffer when the buffer is large
  enough and is null otherwise. The 16 bytes the pointer views are kept as the two fields
  (\<open>None\<close> is the null pointer); \<open>payload\<close> holds the bytes after them, or the whole buffer
  when there is no header.
\<close>

record buffer =
  header :: "MsgHeader option"
  payload :: "u8 list"

definition new_buffer :: "Config \<Rightarrow> buffer" where
  "new_buffer cfg =
     (if sizeof_MsgHeader \<le> messageSize cfg
      then \<lparr>header = Some \<lparr>sequence = 0, sendTimeNs = 0\<rparr>,
            payload = replicate (unat (messageSize cfg) - unat sizeof_MsgHeader) 0\<rparr>
      else \<lparr>header = None, payload = replicate (unat (messageSize cfg)) 0\<rparr>)"

text \<open>
  The values of \<^verbatim>\<open>errno\<close> that \<^verbatim>\<open>mq_timedsend\<close> and \<^verbatim>\<open>mq_timedreceive\<close> set (POSIX);
  the program tells \<^verbatim>\<open>EAGAIN\<close> and \<^verbatim>\<open>ETIMEDOUT\<close> from the rest.
\<close>

datatype errno = EAGAIN | ETIMEDOUT | EBADF | EINTR | EINVAL | EMSGSIZE

datatype send_result = SendOk | SendFailed errno

datatype recv_result = Received u64 buffer | RecvFailed errno

subsection \<open>The producer loop\<close>

text \<open>
  \<^verbatim>\<open>memcpy(buffer.data() + i, &r, sizeof(uint32_t))\<close>: the four bytes of \<open>r\<close>, lowest
  first (the byte order of the x86-64 and AArch64 targets), written at offset \<open>i\<close>.
\<close>

definition memcpy_u32 :: "u8 list \<Rightarrow> nat \<Rightarrow> u32 \<Rightarrow> u8 list" where
  "memcpy_u32 bytes i r =
     bytes[i := ucast r, i + 1 := ucast (drop_bit 8 r), i + 2 := ucast (drop_bit 16 r),
           i + 3 := ucast (drop_bit 24 r)]"

text \<open>
  The loop \<^verbatim>\<open>for (size_t i = start; i + sizeof(uint32_t) <= cfg.messageSize; i += 4)\<close> of the
  random payload. \<open>i\<close> and \<open>n\<close> are the offset and the size counted from \<open>start\<close>, that
  is, within \<open>payload\<close>; \<open>draw_word\<close> is \<^verbatim>\<open>dist(rng)\<close> of the worker's own generator.
\<close>

function fill_random ::
  "('g \<Rightarrow> u32 \<times> 'g) \<Rightarrow> nat \<Rightarrow> nat \<Rightarrow> u8 list \<Rightarrow> 'g \<Rightarrow> u8 list \<times> 'g" where
  "fill_random draw_word i n bytes g =
     (if i + 4 \<le> n
      then (let (r, g') = draw_word g in fill_random draw_word (i + 4) n (memcpy_u32 bytes i r) g')
      else (bytes, g))"
  by pat_completeness auto
termination
  by (relation "measure (\<lambda>(draw_word, i, n, bytes, g). n - i)") auto

declare fill_random.simps [simp del]

text \<open>
  What one producer thread owns and changes: its buffer, \<open>seq\<close>, its generator, the
  counters (shared, but only this thread's increments are modelled) and the sleeps it has
  asked for, in microseconds, oldest first.
\<close>

record 'g producer =
  p_buffer :: buffer
  p_seq :: u64
  p_rng :: 'g
  p_stats :: Stats
  p_slept :: "nat list"

definition new_producer :: "Config \<Rightarrow> 'g \<Rightarrow> Stats \<Rightarrow> 'g producer" where
  "new_producer cfg g st =
     \<lparr>p_buffer = new_buffer cfg, p_seq = 0, p_rng = g, p_stats = st, p_slept = []\<rparr>"

text \<open>
  One iteration of the \<^verbatim>\<open>while (!stopFlag)\<close> loop of \<^verbatim>\<open>producerThread\<close>
  (\<^verbatim>\<open>mq_benchmark.cpp\<close> lines 202 to 232). \<open>now\<close> is what \<^verbatim>\<open>nowNs()\<close> returns and \<open>res\<close>
  what \<^verbatim>\<open>mq_timedsend\<close> does with the buffer. The buffer of the resulting state is the
  message that was handed to \<^verbatim>\<open>mq_timedsend\<close> in this iteration.
\<close>

definition producer_iteration ::
  "('g \<Rightarrow> u32 \<times> 'g) \<Rightarrow> Config \<Rightarrow> u64 \<Rightarrow> send_result \<Rightarrow> 'g producer \<Rightarrow> 'g producer" where
  "producer_iteration draw_word cfg now res p =
     (let p1 = (case header (p_buffer p) of
                  Some h \<Rightarrow>
                    p\<lparr>p_buffer := (p_buffer p)\<lparr>header := Some \<lparr>sequence = p_seq p, sendTimeNs = now\<rparr>\<rparr>,
                      p_seq := p_seq p + 1\<rparr>
                | None \<Rightarrow> p);
          p2 = (if randomPayload cfg
                then (let (bytes, g) =
                            fill_random draw_word 0 (length (payload (p_buffer p1)))
                              (payload (p_buffer p1)) (p_rng p1)
                      in p1\<lparr>p_buffer := (p_buffer p1)\<lparr>payload := bytes\<rparr>, p_rng := g\<rparr>)
                else p1);
          st = p_stats p2
      in case res of
           SendOk \<Rightarrow>
             p2\<lparr>p_stats := st\<lparr>sentMessages := sentMessages st + 1,
                               sentBytes := sentBytes st + messageSize cfg\<rparr>\<rparr>
         | SendFailed e \<Rightarrow>
             (if e = EAGAIN \<or> e = ETIMEDOUT
              then p2\<lparr>p_stats := st\<lparr>sendEagain := sendEagain st + 1\<rparr>,
                      p_slept := p_slept p2 @ [50]\<rparr>
              else p2\<lparr>p_stats := st\<lparr>sendErrors := sendErrors st + 1\<rparr>,
                      p_slept := p_slept p2 @ [100]\<rparr>))"

text \<open>
  The retry the specification describes: the message of the failed iteration is the one
  handed to the transport in the next iteration.
\<close>

definition same_message_retried ::
  "('g \<Rightarrow> u32 \<times> 'g) \<Rightarrow> Config \<Rightarrow> 'g producer \<Rightarrow> u64 \<Rightarrow> errno \<Rightarrow> u64 \<Rightarrow> send_result \<Rightarrow> bool" where
  "same_message_retried draw_word cfg p now e now' res' \<longleftrightarrow>
     p_buffer (producer_iteration draw_word cfg now' res'
                 (producer_iteration draw_word cfg now (SendFailed e) p)) =
     p_buffer (producer_iteration draw_word cfg now (SendFailed e) p)"

text \<open>An example 32-bit generator for concrete runs: a counter.\<close>

definition counter32 :: "u32 \<Rightarrow> u32 \<times> u32" where
  "counter32 g = (g, g + 1)"

subsection \<open>The consumer side\<close>

text \<open>
  One iteration of the \<^verbatim>\<open>while (!stopFlag)\<close> loop of \<^verbatim>\<open>consumerThread\<close>
  (\<^verbatim>\<open>mq_benchmark.cpp\<close> lines 241 to 268). \<open>res\<close> is what \<^verbatim>\<open>mq_timedreceive\<close> did: the
  number of bytes received and the buffer as it is afterwards, or the error. \<open>now\<close> is
  what \<^verbatim>\<open>nowNs()\<close> returns. The state is the counters, the latency recorder and the sleeps
  asked for.
\<close>

definition consumer_iteration ::
  "'g uniform_dist \<Rightarrow> recv_result \<Rightarrow> u64 \<Rightarrow> Stats \<times> 'g LatencyRecorder \<times> nat list \<Rightarrow>
   Stats \<times> 'g LatencyRecorder \<times> nat list" where
  "consumer_iteration draw res now s =
     (case s of (stats, latRecorder, slept) \<Rightarrow>
        (case res of
           Received n buf \<Rightarrow>
             (let stats1 = stats\<lparr>recvMessages := recvMessages stats + 1,
                                 recvBytes := recvBytes stats + n\<rparr>
              in case header buf of
                   Some h \<Rightarrow>
                     (if sizeof_MsgHeader \<le> n
                      then (let recvNs = now; sendNs = sendTimeNs h
                            in if sendNs \<le> recvNs
                               then (stats1, record_mq draw latRecorder (recvNs - sendNs), slept)
                               else (stats1, latRecorder, slept))
                      else (stats1, latRecorder, slept))
                 | None \<Rightarrow> (stats1, latRecorder, slept))
         | RecvFailed e \<Rightarrow>
             (if e = EAGAIN \<or> e = ETIMEDOUT
              then (stats\<lparr>recvEagain := recvEagain stats + 1\<rparr>, latRecorder, slept @ [50])
              else (stats\<lparr>recvErrors := recvErrors stats + 1\<rparr>, latRecorder, slept @ [100]))))"

text \<open>
  The block that \<^verbatim>\<open>produceFunc\<close> of \<^verbatim>\<open>gcd_benchmark.cpp\<close> dispatches for each message
  (lines 209 to 221). \<open>n\<close> is \<^verbatim>\<open>payload.size()\<close> of the copy the block owns and \<open>buf\<close>
  its content; the block reads the header through a cast when the size allows it (a
  buffer of at least 16 bytes has its first 16 bytes in \<open>header\<close>).
  Releasing the semaphore is not part of this state.
\<close>

definition gcd_completion ::
  "'g uniform_dist \<Rightarrow> u64 \<Rightarrow> buffer \<Rightarrow> u64 \<Rightarrow> gcd_Stats \<times> 'g LatencyRecorder \<Rightarrow>
   gcd_Stats \<times> 'g LatencyRecorder" where
  "gcd_completion draw n buf now s =
     (case s of (stats, latRecorder) \<Rightarrow>
        (let stats1 = stats\<lparr>recvMessages := recvMessages stats + 1,
                            recvBytes := recvBytes stats + n\<rparr>
         in if sizeof_MsgHeader \<le> n
            then (case header buf of
                    Some h \<Rightarrow>
                      (let recvNs = now; sendNs = sendTimeNs h
                       in if sendNs \<le> recvNs
                          then (stats1, record_gcd draw latRecorder (recvNs - sendNs))
                          else (stats1, latRecorder))
                  | None \<Rightarrow> (stats1, latRecorder))
            else (stats1, latRecorder)))"

subsection \<open>Exit status\<close>

text \<open>
  What \<^verbatim>\<open>main\<close> of \<^verbatim>\<open>mq_benchmark.cpp\<close> meets outside the program after the arguments are
  parsed:
  \<^item> whether \<^verbatim>\<open>mq_open\<close>, \<^verbatim>\<open>mq_getattr\<close> and \<^verbatim>\<open>fopen\<close> of the CSV path succeed;
  \<^item> the two values \<^verbatim>\<open>readLongFromFile\<close> returns for the system limits (what the files
    under \<^verbatim>\<open>/proc/sys/fs/mqueue\<close> hold, or the fallbacks 10 and 8192);
  \<^item> \<^verbatim>\<open>max_size()\<close> of the three vector types the run fills: \<^verbatim>\<open>vector<uint8_t>\<close>,
    \<^verbatim>\<open>vector<uint64_t>\<close> and \<^verbatim>\<open>vector<thread>\<close>, constants of the C++ library;
  \<^item> whether the resources of the run are there: every allocation succeeds, every thread
    starts and \<^verbatim>\<open>random_device\<close> delivers.
\<close>

record environment =
  mq_open_ok :: bool
  mq_getattr_ok :: bool
  fopen_ok :: bool
  sys_maxmsg :: "64 word"
  sys_msgsize :: "64 word"
  max_size_u8 :: nat
  max_size_u64 :: nat
  max_size_thread :: nat
  resources_ok :: bool

text \<open>What the program writes to the standard error stream.\<close>

datatype diagnostic = Cerr string | Perror string

text \<open>
  How the process ends: \<^verbatim>\<open>main\<close> returns a value, which is the exit status, or an
  exception that nothing catches (\<^verbatim>\<open>std::length_error\<close>, \<^verbatim>\<open>std::bad_alloc\<close>,
  \<^verbatim>\<open>std::system_error\<close>) reaches \<^verbatim>\<open>std::terminate\<close>, in \<^verbatim>\<open>main\<close> or in a worker
  thread, and the process is killed by \<^verbatim>\<open>abort()\<close>.
\<close>

datatype outcome = Returned int | Aborted

text \<open>\<^verbatim>\<open>operator<<\<close> for a \<^verbatim>\<open>long\<close>: the decimal digits, with a minus sign below 0.\<close>

definition digit_char :: "nat \<Rightarrow> char" where
  "digit_char d = ''0123456789'' ! d"

function show_nat :: "nat \<Rightarrow> string" where
  "show_nat n = (if n < 10 then [digit_char n] else show_nat (n div 10) @ [digit_char (n mod 10)])"
  by pat_completeness auto
termination
  by (relation "measure (\<lambda>n. n)") auto

declare show_nat.simps [simp del]

definition show_long :: "64 word \<Rightarrow> string" where
  "show_long x =
     (if sint x < 0 then ''-'' @ show_nat (nat (- sint x)) else show_nat (nat (sint x)))"

text \<open>
  Lines 320 to 333, compiled on Linux: the two notes written when a request exceeds a
  system limit. \<^verbatim>\<open>static_cast<long>(cfg.messageSize)\<close> keeps the 64 bits and reads them
  as signed. (The capped values go into \<^verbatim>\<open>mq_attr\<close> only, which is consumed by
  \<^verbatim>\<open>mq_open\<close>.)
\<close>

definition capping_notes :: "Config \<Rightarrow> environment \<Rightarrow> diagnostic list" where
  "capping_notes cfg env =
     (let requested_maxmsg = maxMessages cfg;
          requested_msgsize = messageSize cfg
      in (if sint (sys_maxmsg env) < sint requested_maxmsg
          then [Cerr (''Note: requested max-messages='' @ show_long requested_maxmsg @
                      '' exceeds system msg_max='' @ show_long (sys_maxmsg env) @ '', capping.'')]
          else []) @
         (if sint (sys_msgsize env) < sint requested_msgsize
          then [Cerr (''Note: requested message-size='' @ show_long requested_msgsize @
                      '' exceeds system msgsize_max='' @ show_long (sys_msgsize env) @
                      '', capping.'')]
          else []))"

text \<open>
  \<^verbatim>\<open>static_cast<size_t>(cfg.producers + cfg.consumers)\<close>, the argument of
  \<^verbatim>\<open>threads.reserve\<close>: an \<^verbatim>\<open>int\<close> addition, sign-extended to 64 bits. An overflow of the
  addition is undefined in C++; the model takes the wrap-around that the targets
  compute.
\<close>

definition thread_count :: "Config \<Rightarrow> u64" where
  "thread_count cfg = scast (producers cfg + consumers cfg)"

text \<open>
  \<^verbatim>\<open>main\<close> of \<^verbatim>\<open>mq_benchmark.cpp\<close> from the first test of the configuration (line 296) to
  its end: how the process ends, and the diagnostics the statements of the program have
  written by then, in order (each without the newline that ends it; what the handler of
  \<^verbatim>\<open>std::terminate\<close> prints is not among them).

  The benchmark between \<^verbatim>\<open>mq_getattr\<close> and the summary has no \<^verbatim>\<open>return\<close> and writes
  nothing to the error stream, but it can throw:
  \<^item> \<^verbatim>\<open>LatencyRecorder latRecorder(cfg.latencySample)\<close> calls
    \<^verbatim>\<open>samplesNs.reserve(capacity)\<close>, which throws \<^verbatim>\<open>std::length_error\<close> above
    \<^verbatim>\<open>max_size()\<close> (line 79);
  \<^item> \<^verbatim>\<open>threads.reserve(...)\<close> does the same (line 371);
  \<^item> every worker thread constructs \<^verbatim>\<open>vector<uint8_t> buffer(cfg.messageSize, 0)\<close>, which
    throws \<^verbatim>\<open>std::length_error\<close> above \<^verbatim>\<open>max_size()\<close> (lines 194 and 236); there is at
    least one producer and one consumer;
  \<^item> any allocation can throw \<^verbatim>\<open>std::bad_alloc\<close> and any thread creation
    \<^verbatim>\<open>std::system_error\<close>, which is \<open>resources_ok\<close> being false.
  None of these is caught. Otherwise the workers stop when \<^verbatim>\<open>stopFlag\<close> is set, every
  \<^verbatim>\<open>join\<close> returns and \<^verbatim>\<open>main\<close> goes on to the summary.
\<close>

definition main_mq :: "Config \<Rightarrow> environment \<Rightarrow> outcome \<times> diagnostic list" where
  "main_mq cfg env =
     (if messageSize cfg = 0 then (Returned 1, [Cerr ''message-size must be > 0''])
      else if sint (producers cfg) \<le> 0 \<or> sint (consumers cfg) \<le> 0
        then (Returned 1, [Cerr ''producers and consumers must be >= 1''])
      else if sint (durationSeconds cfg) \<le> 0
        then (Returned 1, [Cerr ''duration-seconds must be >= 1''])
      else if sint (maxMessages cfg) \<le> 0
        then (Returned 1, [Cerr ''max-messages must be >= 1''])
      else
        (let notes = capping_notes cfg env
         in if \<not> mq_open_ok env
              then (Returned 2,
                    notes @
                    [Perror ''mq_open'',
                     Cerr (''Failed to open queue '' @ queueName cfg @
                           ''. On Linux, you may need to adjust /proc/sys/fs/mqueue/msg_max or msgsize_max.'')])
            else if \<not> mq_getattr_ok env
              then (Returned 2, notes @ [Perror ''mq_getattr''])
            else if max_size_u64 env < unat (latencySample cfg) then (Aborted, notes)
            else if max_size_thread env < unat (thread_count cfg) then (Aborted, notes)
            else if max_size_u8 env < unat (messageSize cfg) then (Aborted, notes)
            else if \<not> resources_ok env then (Aborted, notes)
            else if csvPath cfg \<noteq> [] \<and> \<not> fopen_ok env
              then (Returned 0, notes @ [Perror ''fopen csv''])
            else (Returned 0, notes)))"

text \<open>The invalid configurations the specification lists.\<close>

definition invalid_configuration :: "Config \<Rightarrow> bool" where
  "invalid_configuration cfg \<longleftrightarrow>
     messageSize cfg = 0 \<or> sint (producers cfg) < 1 \<or> sint (consumers cfg) < 1 \<or>
     sint (durationSeconds cfg) < 1 \<or> sint (maxMessages cfg) < 1"

text \<open>
  A completed run, in the words of claim C9: the benchmark gets through, that is, no
  vector is asked for more than its \<^verbatim>\<open>max_size()\<close> and the resources are there.
\<close>

definition run_completes :: "Config \<Rightarrow> environment \<Rightarrow> bool" where
  "run_completes cfg env \<longleftrightarrow>
     unat (latencySample cfg) \<le> max_size_u64 env \<and>
     unat (thread_count cfg) \<le> max_size_thread env \<and>
     unat (messageSize cfg) \<le> max_size_u8 env \<and>
     resources_ok env"

text \<open>The default configuration: the initialisers of \<^verbatim>\<open>struct Config\<close>.\<close>

definition default_Config :: Config where
  "default_Config =
     \<lparr>queueName = ''/mq_bench'', durationSeconds = 5, messageSize = 256, maxMessages = 1024,
      producers = 1, consumers = 1, unlinkAtStart = True, unlinkAtEnd = True,
      nonBlocking = False, randomPayload = False, latencySample = 100000,
      printIntervalSeconds = 1, csvPath = ''''\<rparr>"

text \<open>
  An environment in which everything succeeds: the fallback system limits of
  \<^verbatim>\<open>readLongFromFile\<close>, and \<^verbatim>\<open>max_size()\<close> as in libstdc++ on a 64-bit target
  (\<^verbatim>\<open>PTRDIFF_MAX / sizeof(T)\<close>).
\<close>

definition good_environment :: environment where
  "good_environment =
     \<lparr>mq_open_ok = True, mq_getattr_ok = True, fopen_ok = True,
      sys_maxmsg = 10, sys_msgsize = 8192,
      max_size_u8 = 2 ^ 63 - 1, max_size_u64 = 2 ^ 60 - 1, max_size_thread = 2 ^ 60 - 1,
      resources_ok = True\<rparr>"

section \<open>Properties of the latency recorder\<close>

lemma capacity_record_gcd: "capacity (record_gcd draw r v) = capacity r"
  by (simp add: record_gcd_def Let_def split: prod.split)

lemma capacity_record_mq: "capacity (record_mq draw r v) = capacity r"
  by (simp add: record_mq_def Let_def split: prod.split)

lemma seen_record_gcd: "seen (record_gcd draw r v) = seen r + 1"
  by (simp add: record_gcd_def Let_def split: prod.split)

lemma seen_record_mq: "seen (record_mq draw r v) = seen r + 1"
  by (simp add: record_mq_def Let_def split: prod.split)

lemma not_less_capacity_full:
  "\<not> (of_nat n :: u64) < c \<Longrightarrow> unat c \<le> n"
proof -
  assume "\<not> (of_nat n :: u64) < c"
  then have "unat c \<le> unat (of_nat n :: u64)"
    by (simp add: word_less_nat_alt)
  also have "\<dots> \<le> n"
    by (simp add: unat_of_nat)
  finally show ?thesis .
qed

lemma length_record_gcd:
  "length (samplesNs (record_gcd draw r v)) =
     (if capacity r \<noteq> 0 \<and> seen r < capacity r \<and> length (samplesNs r) < unat (capacity r)
      then Suc (length (samplesNs r)) else length (samplesNs r))"
  by (simp add: record_gcd_def Let_def split: prod.split)

lemma length_record_mq:
  "length (samplesNs (record_mq draw r v)) =
     (if capacity r \<noteq> 0 \<and> seen r < capacity r \<and> length (samplesNs r) < unat (capacity r)
      then Suc (length (samplesNs r)) else length (samplesNs r))"
  by (simp add: record_mq_def Let_def split: prod.split)

lemma after_calls_step:
  assumes a: "after_calls n r"
    and c: "capacity r' = capacity r"
    and s: "seen r' = seen r + 1"
    and l: "length (samplesNs r') =
     (if capacity r \<noteq> 0 \<and> seen r < capacity r \<and> length (samplesNs r) < unat (capacity r)
      then Suc (length (samplesNs r)) else length (samplesNs r))"
  shows "after_calls (Suc n) r'"
proof -
  from a have sn: "seen r = of_nat n" and ln: "length (samplesNs r) = min n (unat (capacity r))"
    by (simp_all add: after_calls_def)
  have s': "seen r' = of_nat (Suc n)" using s sn by simp
  have "length (samplesNs r') = min (Suc n) (unat (capacity r))"
  proof (cases "capacity r \<noteq> 0 \<and> seen r < capacity r \<and> length (samplesNs r) < unat (capacity r)")
    case True
    then show ?thesis using l ln by auto
  next
    case False
    have "unat (capacity r) \<le> n"
    proof (cases "capacity r = 0")
      case True then show ?thesis by simp
    next
      case nz: False
      show ?thesis
      proof (cases "seen r < capacity r")
        case True
        with False nz have "\<not> length (samplesNs r) < unat (capacity r)" by simp
        then show ?thesis using ln by simp
      next
        case False
        then show ?thesis using sn not_less_capacity_full by simp
      qed
    qed
    then show ?thesis using l ln False by auto
  qed
  then show ?thesis using s' c by (simp add: after_calls_def)
qed

lemma after_calls_record_gcd: "after_calls n r \<Longrightarrow> after_calls (Suc n) (record_gcd draw r v)"
  by (rule after_calls_step [OF _ capacity_record_gcd seen_record_gcd length_record_gcd])

lemma after_calls_record_mq: "after_calls n r \<Longrightarrow> after_calls (Suc n) (record_mq draw r v)"
  by (rule after_calls_step [OF _ capacity_record_mq seen_record_mq length_record_mq])

lemma after_calls_new: "after_calls 0 (new_LatencyRecorder cap g)"
  by (simp add: after_calls_def new_LatencyRecorder_def)

lemma run_gcd_snoc: "run_gcd draw r (vs @ [v]) = record_gcd draw (run_gcd draw r vs) v"
  by (simp add: run_gcd_def)

lemma run_mq_snoc: "run_mq draw r (vs @ [v]) = record_mq draw (run_mq draw r vs) v"
  by (simp add: run_mq_def)

lemma capacity_run_gcd: "capacity (run_gcd draw r vs) = capacity r"
  by (induction vs rule: rev_induct) (simp_all add: run_gcd_snoc capacity_record_gcd, simp add: run_gcd_def)

lemma capacity_run_mq: "capacity (run_mq draw r vs) = capacity r"
  by (induction vs rule: rev_induct) (simp_all add: run_mq_snoc capacity_record_mq, simp add: run_mq_def)

lemma after_calls_run_gcd:
  "after_calls (length vs) (run_gcd draw (new_LatencyRecorder cap g) vs)"
proof (induction vs rule: rev_induct)
  case Nil
  show ?case by (simp add: run_gcd_def after_calls_new)
next
  case (snoc v vs)
  then show ?case by (simp add: run_gcd_snoc after_calls_record_gcd)
qed

lemma after_calls_run_mq:
  "after_calls (length vs) (run_mq draw (new_LatencyRecorder cap g) vs)"
proof (induction vs rule: rev_induct)
  case Nil
  show ?case by (simp add: run_mq_def after_calls_new)
next
  case (snoc v vs)
  then show ?case by (simp add: run_mq_snoc after_calls_record_mq)
qed


lemma record_mq_eq_gcd:
  "(seen r < capacity r \<Longrightarrow> length (samplesNs r) < unat (capacity r)) \<Longrightarrow>
   record_mq draw r v = record_gcd draw r v"
  by (auto simp add: record_mq_def record_gcd_def Let_def split: prod.split)

lemma after_calls_not_full:
  assumes "after_calls n r" and "n < 2 ^ 64" and "seen r < capacity r"
  shows "length (samplesNs r) < unat (capacity r)"
proof -
  from assms(1) have sn: "seen r = of_nat n" and ln: "length (samplesNs r) = min n (unat (capacity r))"
    by (simp_all add: after_calls_def)
  have "unat (seen r) = n" using sn assms(2) by (simp add: unat_of_nat)
  then have "n < unat (capacity r)" using assms(3) by (simp add: word_less_nat_alt)
  then show ?thesis using ln by simp
qed

lemma run_mq_eq_gcd:
  "length vs \<le> 2 ^ 64 \<Longrightarrow>
   run_mq draw (new_LatencyRecorder cap g) vs = run_gcd draw (new_LatencyRecorder cap g) vs"
proof (induction vs rule: rev_induct)
  case Nil
  show ?case by (simp add: run_mq_def run_gcd_def)
next
  case (snoc v vs)
  let ?r = "run_gcd draw (new_LatencyRecorder cap g) vs"
  from snoc have ih: "run_mq draw (new_LatencyRecorder cap g) vs = ?r"
    and lt: "length vs < 2 ^ 64" by simp_all
  have "record_mq draw ?r v = record_gcd draw ?r v"
    by (rule record_mq_eq_gcd) (rule after_calls_not_full [OF after_calls_run_gcd lt])
  then show ?case by (simp add: run_mq_snoc run_gcd_snoc ih)
qed


lemma after_calls_bounds:
  assumes "after_calls n r"
  shows "length (samplesNs r) \<le> unat (capacity r)"
    and "capacity r \<le> seen r \<Longrightarrow> length (samplesNs r) = unat (capacity r)"
    and "unat (capacity r) \<le> n \<Longrightarrow> length (samplesNs r) = unat (capacity r)"
proof -
  from assms have sn: "seen r = of_nat n" and ln: "length (samplesNs r) = min n (unat (capacity r))"
    by (simp_all add: after_calls_def)
  show "length (samplesNs r) \<le> unat (capacity r)" using ln by simp
  show "length (samplesNs r) = unat (capacity r)" if "unat (capacity r) \<le> n"
    using that ln by simp
  show "length (samplesNs r) = unat (capacity r)" if "capacity r \<le> seen r"
  proof -
    from that have "\<not> (of_nat n :: u64) < capacity r" using sn by simp
    then have "unat (capacity r) \<le> n" by (rule not_less_capacity_full)
    then show ?thesis using ln by simp
  qed
qed


lemmas recorder_eval =
  run_gcd_def run_mq_def record_gcd_def record_mq_def new_LatencyRecorder_def
  counter_dist_def Let_def


text \<open>
  Claim C10. For every capacity, generator and single-threaded sequence of at most
  \<open>2 ^ 64\<close> calls on a fresh recorder, the \<open>record\<close> of \<^verbatim>\<open>mq_benchmark.cpp\<close> and the
  \<open>record\<close> of \<^verbatim>\<open>gcd_benchmark.cpp\<close> leave the recorder in the same state, and the
  extra branch of the first is never taken: before every call, \<open>index < capacity\<close> implies
  that fewer than \<open>capacity\<close> calls came before and that the vector is not full. The bound
  is the number of calls after which the 64-bit counter \<open>seen\<close> wraps around.
\<close>

theorem record_mq_gcd_equivalent:
  assumes "length vs \<le> 2 ^ 64"
  shows "run_mq draw (new_LatencyRecorder cap g) vs = run_gcd draw (new_LatencyRecorder cap g) vs \<and>
    (\<forall>k < length vs.
       let r = run_mq draw (new_LatencyRecorder cap g) (take k vs)
       in seen r < capacity r \<longrightarrow> k < unat cap \<and> length (samplesNs r) < unat (capacity r))"
proof
  show "run_mq draw (new_LatencyRecorder cap g) vs = run_gcd draw (new_LatencyRecorder cap g) vs"
    using assms by (rule run_mq_eq_gcd)
  show "\<forall>k < length vs.
       let r = run_mq draw (new_LatencyRecorder cap g) (take k vs)
       in seen r < capacity r \<longrightarrow> k < unat cap \<and> length (samplesNs r) < unat (capacity r)"
  proof (intro allI impI)
    fix k assume k: "k < length vs"
    let ?r = "run_mq draw (new_LatencyRecorder cap g) (take k vs)"
    have len: "length (take k vs) = k" using k by simp
    have ac: "after_calls k ?r" using after_calls_run_mq [where vs = "take k vs" and draw = draw and cap = cap and g = g] len by simp
    have k64: "k < 2 ^ 64" using k assms by simp
    have cap: "capacity ?r = cap" by (simp add: capacity_run_mq new_LatencyRecorder_def)
    have "length (samplesNs ?r) < unat (capacity ?r)" if "seen ?r < capacity ?r"
      using after_calls_not_full [OF ac k64 that] .
    moreover have "k < unat cap" if "seen ?r < capacity ?r"
    proof -
      have "length (samplesNs ?r) < unat (capacity ?r)"
        using after_calls_not_full [OF ac k64 that] .
      then show ?thesis using ac cap by (simp add: after_calls_def)
    qed
    ultimately show "let r = ?r in seen r < capacity r \<longrightarrow>
        k < unat cap \<and> length (samplesNs r) < unat (capacity r)"
      by (simp add: Let_def)
  qed
qed

theorem record_mq_gcd_equivalent_witness:
  "length [10, 20, 30, 40 :: u64] \<le> 2 ^ 64 \<and>
   run_mq counter_dist (new_LatencyRecorder 2 0) [10, 20, 30, 40] =
     run_gcd counter_dist (new_LatencyRecorder 2 0) [10, 20, 30, 40] \<and>
   run_gcd counter_dist (new_LatencyRecorder 2 0) [10, 20, 30, 40] =
     \<lparr>samplesNs = [30, 40], capacity = 2, rng = 2, seen = 4\<rparr> \<and>
   (1 :: nat) < length [10, 20, 30, 40 :: u64] \<and>
   seen (run_mq counter_dist (new_LatencyRecorder 2 0) (take 1 [10, 20, 30, 40])) < 2 \<and>
   length (samplesNs (run_mq counter_dist (new_LatencyRecorder 2 0) (take 1 [10, 20, 30, 40]))) < unat (2 :: u64)"
  using record_mq_gcd_equivalent
    [where vs = "[10, 20, 30, 40]" and draw = counter_dist and cap = 2 and g = 0]
  by (simp add: recorder_eval)

lemma sequential_state_full:
  "sequential_state r \<Longrightarrow> \<not> seen r < capacity r \<Longrightarrow> length (samplesNs r) = unat (capacity r)"
  by (simp add: sequential_state_def word_less_nat_alt)

lemma sequential_state_not_full:
  "sequential_state r \<Longrightarrow> seen r < capacity r \<Longrightarrow> length (samplesNs r) < unat (capacity r)"
  by (simp add: sequential_state_def word_less_nat_alt)

section \<open>One call of record\<close>

lemma record_gcd_split:
  "record_gcd draw r v = store_gcd draw (fst (fetch_index r)) (snd (fetch_index r)) v"
  by (simp add: record_gcd_def store_gcd_def fetch_index_def Let_def)

lemma record_mq_split:
  "record_mq draw r v = store_mq draw (fst (fetch_index r)) (snd (fetch_index r)) v"
  by (simp add: record_mq_def store_mq_def fetch_index_def Let_def)

lemma record_effect_gcd:
  assumes nz: "capacity r \<noteq> 0" and dr: "fst (draw (rng r) (seen r)) \<le> seen r"
  shows "record_effect draw r v (record_gcd draw r v)"
  using nz dr
  by (auto simp add: record_effect_def record_gcd_def Let_def split: prod.split)

lemma record_effect_mq:
  assumes nz: "capacity r \<noteq> 0" and dr: "fst (draw (rng r) (seen r)) \<le> seen r"
  shows "record_effect draw r v (record_mq draw r v)"
  using nz dr
  by (auto simp add: record_effect_def record_mq_def Let_def split: prod.split)

lemma record_claim_sequential:
  assumes nz: "capacity r \<noteq> 0" and st: "sequential_state r"
    and dr: "fst (draw (rng r) (seen r)) \<le> seen r"
  shows "record_claim draw r v (record_gcd draw r v)"
proof (cases "seen r < capacity r")
  case True
  then show ?thesis using nz
    by (simp add: record_claim_def record_gcd_def Let_def split: prod.split)
next
  case False
  have full: "length (samplesNs r) = unat (capacity r)"
    using st False by (rule sequential_state_full)
  show ?thesis using nz False dr full
    by (auto simp add: record_claim_def record_gcd_def Let_def word_less_nat_alt split: prod.split)
qed

text \<open>
  Claim C1, as amended. On a recorder with a capacity other than 0, in any state, with a
  distribution whose draws stay within its bounds, a call of \<open>record\<close> of either program
  takes the index \<open>i\<close> from \<open>seen\<close> and increments it. If \<open>i < capacity\<close> it appends the
  value exactly when the vector holds fewer than \<open>capacity\<close> samples, and leaves the
  length of the vector as it is otherwise. If \<open>i \<ge> capacity\<close> it draws \<open>pos\<close> in
  \<open>[0, i]\<close> and overwrites position \<open>pos\<close> exactly when \<open>pos < capacity\<close> and \<open>pos\<close> is
  below the length of the vector; otherwise the vector is unchanged. In a state that
  single-threaded calls lead to, the vector is full whenever \<open>i \<ge> capacity\<close>, and the call
  does what the claim said: \<open>record_claim\<close> holds.
\<close>

theorem record_behaviour:
  assumes nz: "capacity r \<noteq> 0"
    and dr: "\<And>g hi. fst (draw g hi) \<le> hi"
  shows "record_effect draw r v (record_gcd draw r v) \<and>
         record_effect draw r v (record_mq draw r v) \<and>
         (sequential_state r \<longrightarrow>
            record_claim draw r v (record_gcd draw r v) \<and>
            record_claim draw r v (record_mq draw r v))"
proof (intro conjI impI)
  show "record_effect draw r v (record_gcd draw r v)"
    using nz dr [of "rng r" "seen r"] by (rule record_effect_gcd)
  show "record_effect draw r v (record_mq draw r v)"
    using nz dr [of "rng r" "seen r"] by (rule record_effect_mq)
next
  assume st: "sequential_state r"
  show g: "record_claim draw r v (record_gcd draw r v)"
    using nz st dr [of "rng r" "seen r"] by (rule record_claim_sequential)
  have "record_mq draw r v = record_gcd draw r v"
    by (rule record_mq_eq_gcd) (rule sequential_state_not_full [OF st])
  with g show "record_claim draw r v (record_mq draw r v)" by simp
qed

theorem record_behaviour_witness:
  "capacity \<lparr>samplesNs = [10, 20], capacity = 2, rng = 0 :: u64, seen = 2\<rparr> \<noteq> 0 \<and>
   (\<forall>g hi. fst (counter_dist g hi) \<le> hi) \<and>
   sequential_state \<lparr>samplesNs = [10, 20], capacity = 2, rng = 0 :: u64, seen = 2\<rparr> \<and>
   record_effect counter_dist \<lparr>samplesNs = [10, 20], capacity = 2, rng = 0, seen = 2\<rparr> 30
     \<lparr>samplesNs = [30, 20], capacity = 2, rng = 1, seen = 3\<rparr> \<and>
   record_claim counter_dist \<lparr>samplesNs = [10, 20], capacity = 2, rng = 0, seen = 2\<rparr> 30
     \<lparr>samplesNs = [30, 20], capacity = 2, rng = 1, seen = 3\<rparr> \<and>
   record_gcd counter_dist \<lparr>samplesNs = [10, 20], capacity = 2, rng = 0, seen = 2\<rparr> 30 =
     \<lparr>samplesNs = [30, 20], capacity = 2, rng = 1, seen = 3\<rparr> \<and>
   record_mq counter_dist \<lparr>samplesNs = [10, 20], capacity = 2, rng = 0, seen = 2\<rparr> 30 =
     \<lparr>samplesNs = [30, 20], capacity = 2, rng = 1, seen = 3\<rparr> \<and>
   sequential_state (new_LatencyRecorder 2 (0 :: u64)) \<and>
   record_effect counter_dist (new_LatencyRecorder 2 0) 10
     \<lparr>samplesNs = [10], capacity = 2, rng = 0, seen = 1\<rparr> \<and>
   record_gcd counter_dist (new_LatencyRecorder 2 0) 10 =
     \<lparr>samplesNs = [10], capacity = 2, rng = 0, seen = 1\<rparr> \<and>
   record_mq counter_dist (new_LatencyRecorder 2 0) 10 =
     \<lparr>samplesNs = [10], capacity = 2, rng = 0, seen = 1\<rparr> \<and>
   record_effect counter_dist \<lparr>samplesNs = [], capacity = 2, rng = 0, seen = 2\<rparr> 30
     \<lparr>samplesNs = [], capacity = 2, rng = 1, seen = 3\<rparr> \<and>
   record_gcd counter_dist \<lparr>samplesNs = [], capacity = 2, rng = 0, seen = 2\<rparr> 30 =
     \<lparr>samplesNs = [], capacity = 2, rng = 1, seen = 3\<rparr> \<and>
   record_mq counter_dist \<lparr>samplesNs = [], capacity = 2, rng = 0, seen = 2\<rparr> 30 =
     \<lparr>samplesNs = [], capacity = 2, rng = 1, seen = 3\<rparr>"
proof -
  have contract: "fst (counter_dist g hi) \<le> hi" for g hi
    by (simp add: counter_dist_def)
  show ?thesis
    using contract
      record_behaviour
        [where r = "\<lparr>samplesNs = [10, 20], capacity = 2, rng = 0 :: u64, seen = 2\<rparr>"
           and draw = counter_dist and v = 30, OF _ contract]
      record_behaviour
        [where r = "new_LatencyRecorder 2 (0 :: u64)" and draw = counter_dist and v = 10,
           OF _ contract]
      record_behaviour
        [where r = "\<lparr>samplesNs = [], capacity = 2, rng = 0 :: u64, seen = 2\<rparr>"
           and draw = counter_dist and v = 30, OF _ contract]
    by (simp add: recorder_eval sequential_state_def)
qed

text \<open>
  Claim C1 as it was stated fails in a state that two consumer threads produce: on a
  fresh recorder of capacity 2, two calls have taken the indices 0 and 1 and have not yet
  appended. A third call gets the index 2 and draws position 0, which is below the
  capacity; the vector is still empty, the test \<^verbatim>\<open>pos < samplesNs.size()\<close> fails and
  nothing is overwritten. The two pending calls then append their values, and the value
  of the third call is not in the vector.
\<close>

theorem record_claim_counterexample:
  "fetch_index (new_LatencyRecorder 2 (0 :: u64)) =
     (0, \<lparr>samplesNs = [], capacity = 2, rng = 0, seen = 1\<rparr>) \<and>
   fetch_index \<lparr>samplesNs = [], capacity = 2, rng = 0 :: u64, seen = 1\<rparr> =
     (1, \<lparr>samplesNs = [], capacity = 2, rng = 0, seen = 2\<rparr>) \<and>
   capacity \<lparr>samplesNs = [], capacity = 2, rng = 0 :: u64, seen = 2\<rparr> \<noteq> 0 \<and>
   fst (counter_dist 0 2) = 0 \<and>
   record_gcd counter_dist \<lparr>samplesNs = [], capacity = 2, rng = 0, seen = 2\<rparr> 30 =
     \<lparr>samplesNs = [], capacity = 2, rng = 1, seen = 3\<rparr> \<and>
   record_mq counter_dist \<lparr>samplesNs = [], capacity = 2, rng = 0, seen = 2\<rparr> 30 =
     \<lparr>samplesNs = [], capacity = 2, rng = 1, seen = 3\<rparr> \<and>
   \<not> record_claim counter_dist \<lparr>samplesNs = [], capacity = 2, rng = 0, seen = 2\<rparr> 30
       (record_gcd counter_dist \<lparr>samplesNs = [], capacity = 2, rng = 0, seen = 2\<rparr> 30) \<and>
   \<not> record_claim counter_dist \<lparr>samplesNs = [], capacity = 2, rng = 0, seen = 2\<rparr> 30
       (record_mq counter_dist \<lparr>samplesNs = [], capacity = 2, rng = 0, seen = 2\<rparr> 30) \<and>
   store_gcd counter_dist 1
     (store_gcd counter_dist 0 \<lparr>samplesNs = [], capacity = 2, rng = 1, seen = 3\<rparr> 10) 20 =
     \<lparr>samplesNs = [10, 20], capacity = 2, rng = 1, seen = 3\<rparr>"
  by (simp add: recorder_eval fetch_index_def record_claim_def store_gcd_def)

section \<open>The sampling law of the latency recorder\<close>






lemma length_tapes_pos: "0 < length (tapes i m)"
  by (induction m arbitrary: i) (simp_all add: length_concat comp_def sum_list_triv)

lemma unat_of_nat_u64: "n < 2 ^ 64 \<Longrightarrow> unat (of_nat n :: u64) = n"
  by (simp add: unat_of_nat)











lemma set_tapes_Suc:
  "set (tapes i (Suc m)) =
     {w # t | w t. (\<exists>pos \<le> i. w = of_nat pos) \<and> t \<in> set (tapes (Suc i) m)}"
  by (auto simp add: less_Suc_eq_le simp del: upt_Suc)

lemma u64_of_nat_range:
  "i < 2 ^ 64 \<Longrightarrow> (\<exists>pos \<le> i. (w :: u64) = of_nat pos) \<longleftrightarrow> unat w \<le> i"
proof
  assume i: "i < 2 ^ 64" and "\<exists>pos \<le> i. w = of_nat pos"
  then obtain pos where p: "pos \<le> i" "w = of_nat pos" by auto
  then have "unat w = pos" using i by (simp add: unat_of_nat_u64)
  then show "unat w \<le> i" using p by simp
next
  assume "unat w \<le> i"
  moreover have "w = of_nat (unat w)" by simp
  ultimately show "\<exists>pos \<le> i. w = of_nat pos" by blast
qed

lemma set_tapes:
  "i + m \<le> 2 ^ 64 \<Longrightarrow>
   set (tapes i m) = {t. length t = m \<and> (\<forall>k < m. unat (t ! k) \<le> i + k)}"
proof (induction m arbitrary: i)
  case 0
  show ?case by auto
next
  case (Suc m)
  have i64: "i < 2 ^ 64" using Suc.prems by simp
  have ih: "set (tapes (Suc i) m) = {t. length t = m \<and> (\<forall>k < m. unat (t ! k) \<le> Suc i + k)}"
    using Suc.prems by (intro Suc.IH) simp
  show ?case
  proof (intro set_eqI iffI)
    fix t :: "u64 list" assume "t \<in> set (tapes i (Suc m))"
    then obtain w t' where t: "t = w # t'" and w: "\<exists>pos \<le> i. w = of_nat pos"
      and t': "t' \<in> set (tapes (Suc i) m)"
      unfolding set_tapes_Suc by blast
    have uw: "unat w \<le> i" using w u64_of_nat_range [OF i64] by blast
    have l: "length t' = m" and b: "\<forall>k < m. unat (t' ! k) \<le> Suc i + k" using t' ih by auto
    have "unat (t ! k) \<le> i + k" if "k < Suc m" for k
      using that uw b t by (cases k) auto
    then show "t \<in> {t. length t = Suc m \<and> (\<forall>k < Suc m. unat (t ! k) \<le> i + k)}"
      using l t by simp
  next
    fix t :: "u64 list"
    assume "t \<in> {t. length t = Suc m \<and> (\<forall>k < Suc m. unat (t ! k) \<le> i + k)}"
    then have l: "length t = Suc m" and b: "\<forall>k < Suc m. unat (t ! k) \<le> i + k" by auto
    from l obtain w t' where t: "t = w # t'" by (cases t) auto
    have "unat (t ! 0) \<le> i + 0" using b by blast
    then have "unat w \<le> i" using t by simp
    then have w: "\<exists>pos \<le> i. w = of_nat pos" using u64_of_nat_range [OF i64] by blast
    have "unat (t' ! k) \<le> Suc i + k" if "k < m" for k
    proof -
      have "Suc k < Suc m" using that by simp
      then have "unat (t ! Suc k) \<le> i + Suc k" using b by blast
      then show ?thesis using t by simp
    qed
    then have "t' \<in> set (tapes (Suc i) m)" using ih l t by simp
    then show "t \<in> set (tapes i (Suc m))" unfolding set_tapes_Suc using t w by blast
  qed
qed

lemma distinct_tapes: "i + m \<le> 2 ^ 64 \<Longrightarrow> distinct (tapes i m)"
proof (induction m arbitrary: i)
  case 0
  show ?case by simp
next
  case (Suc m)
  have i64: "i < 2 ^ 64" using Suc.prems by simp
  have ih: "distinct (tapes (Suc i) m)" using Suc.prems by (intro Suc.IH) simp
  let ?f = "\<lambda>pos. map ((#) (of_nat pos :: u64)) (tapes (Suc i) m)"
  have inj: "pos = pos'" if "pos < Suc i" "pos' < Suc i" "(of_nat pos :: u64) = of_nat pos'"
    for pos pos'
  proof -
    have "pos < 2 ^ 64" using that(1) i64 by linarith
    then have a: "unat (of_nat pos :: u64) = pos" by (rule unat_of_nat_u64)
    have "pos' < 2 ^ 64" using that(2) i64 by linarith
    then have b: "unat (of_nat pos' :: u64) = pos'" by (rule unat_of_nat_u64)
    show ?thesis using a b that(3) by metis
  qed
  have ne: "tapes (Suc i) m \<noteq> []" using length_tapes_pos [of "Suc i" m] by auto
  have disj: "set (?f pos) \<inter> set (?f pos') = {}"
    if "pos < Suc i" "pos' < Suc i" "pos \<noteq> pos'" for pos pos'
    using inj [OF that(1,2)] that(3) by auto
  have fne: "?f pos \<noteq> []" for pos using ne by simp
  have "distinct (map ?f [0..<Suc i])"
  proof (subst distinct_map, intro conjI inj_onI)
    show "distinct [0..<Suc i]" by simp
    fix pos pos' assume p: "pos \<in> set [0..<Suc i]" "pos' \<in> set [0..<Suc i]"
      and eq: "?f pos = ?f pos'"
    have lt: "pos < Suc i" "pos' < Suc i" using p by (simp_all del: upt_Suc)
    show "pos = pos'"
    proof (rule ccontr)
      assume "pos \<noteq> pos'"
      then have "set (?f pos) \<inter> set (?f pos') = {}" using disj lt by blast
      then have "set (?f pos) = {}" using eq by simp
      then show False using fne [of pos] by simp
    qed
  qed
  moreover have "distinct ys" if "ys \<in> set (map ?f [0..<Suc i])" for ys
  proof -
    from that obtain pos where "ys = ?f pos" by (auto simp del: upt_Suc)
    then show ?thesis using ih by (simp add: distinct_map inj_on_def)
  qed
  moreover have "set ys \<inter> set zs = {}"
    if "ys \<in> set (map ?f [0..<Suc i])" "zs \<in> set (map ?f [0..<Suc i])" "ys \<noteq> zs" for ys zs
  proof -
    from that obtain pos pos' where p: "pos < Suc i" "ys = ?f pos" "pos' < Suc i" "zs = ?f pos'"
      by (auto simp del: upt_Suc)
    then have "pos \<noteq> pos'" using that(3) by auto
    then show ?thesis using disj p by blast
  qed
  ultimately have "distinct (concat (map ?f [0..<Suc i]))" by (rule distinct_concat)
  then show ?case by (simp del: upt_Suc)
qed











section \<open>Properties of the percentile computation\<close>

lemma sample_value_mono:
  assumes "sorted s" and "i \<le> j" and "j < length s"
  shows "sample_value s i \<le> sample_value s j"
proof -
  have "s ! i \<le> s ! j" using assms by (simp add: sorted_nth_mono)
  then have "unat (s ! i) \<le> unat (s ! j)" by (simp add: word_le_nat_alt)
  then show ?thesis by (simp only: sample_value_def of_nat_le_iff)
qed

lemma position_bounds:
  assumes "s \<noteq> []" and "0 \<le> q" and "q \<le> 1"
  shows "0 \<le> q * real (length s - 1)" and "q * real (length s - 1) \<le> real (length s - 1)"
  using assms by (simp_all add: mult_left_le_one_le)

lemma floor_index_in_range:
  assumes "0 \<le> p" and "p \<le> real (n - 1)" and "0 < n"
  shows "nat \<lfloor>p\<rfloor> \<le> n - 1" and "nat \<lfloor>p\<rfloor> < n" and "real (nat \<lfloor>p\<rfloor>) = of_int \<lfloor>p\<rfloor>"
proof -
  have "\<lfloor>p\<rfloor> \<le> int (n - 1)" using assms(2) by (simp add: floor_le_iff)
  then show "nat \<lfloor>p\<rfloor> \<le> n - 1" by linarith
  then show "nat \<lfloor>p\<rfloor> < n" using assms(3) by linarith
  have "0 \<le> \<lfloor>p\<rfloor>" using assms(1) by simp
  then show "real (nat \<lfloor>p\<rfloor>) = of_int \<lfloor>p\<rfloor>" by simp
qed

lemma at_pct_unfold:
  assumes "s \<noteq> []"
  shows "at_pct s q =
    (let p = q * real (length s - 1); i = nat \<lfloor>p\<rfloor>; j = min (i + 1) (length s - 1)
     in (sample_value s i * (1 - (p - real i)) + sample_value s j * (p - real i)) / 1000)"
  using assms by (simp add: at_pct_def sample_value_def Let_def)

lemma at_pct_linear:
  assumes "s \<noteq> []"
  shows "at_pct s q =
    (sample_value s (nat \<lfloor>q * real (length s - 1)\<rfloor>) +
     (q * real (length s - 1) - real (nat \<lfloor>q * real (length s - 1)\<rfloor>)) *
       (sample_value s (min (nat \<lfloor>q * real (length s - 1)\<rfloor> + 1) (length s - 1)) -
        sample_value s (nat \<lfloor>q * real (length s - 1)\<rfloor>))) / 1000"
  unfolding at_pct_unfold [OF assms] Let_def by (simp add: algebra_simps)

lemma at_pct_eq_spec:
  assumes ne: "s \<noteq> []" and q0: "0 \<le> q" and q1: "q \<le> 1"
  shows "at_pct s q = spec_quantile s q"
proof -
  define n where "n = length s"
  define p where "p = q * real (n - 1)"
  define i where "i = nat \<lfloor>p\<rfloor>"
  have n0: "0 < n" using ne by (simp add: n_def)
  have p0: "0 \<le> p" and pn: "p \<le> real (n - 1)"
    using position_bounds [OF ne q0 q1] by (simp_all add: p_def n_def)
  note fl = floor_index_in_range [OF p0 pn n0]
  have ri: "real i = of_int \<lfloor>p\<rfloor>" using fl(3) by (simp add: i_def)
  have fr: "p - real i = frac p" by (simp add: ri frac_def)
  have at: "at_pct s q =
      (sample_value s i * (1 - frac p) + sample_value s (min (i + 1) (n - 1)) * frac p) / 1000"
    using at_pct_unfold [OF ne, of q] fr by (simp add: Let_def p_def n_def i_def)
  have sp: "spec_quantile s q =
      (sample_value s i + frac p * (sample_value s (nat \<lceil>p\<rceil>) - sample_value s i)) / 1000"
    by (simp add: spec_quantile_def sample_value_def Let_def p_def n_def i_def)
  show ?thesis
  proof (cases "p \<in> \<int>")
    case True
    then have f0: "frac p = 0" by (simp add: frac_eq_0_iff)
    show ?thesis unfolding at sp f0 by simp
  next
    case False
    then have "p \<noteq> of_int \<lfloor>p\<rfloor>" by (metis Ints_of_int)
    then have c: "\<lceil>p\<rceil> = \<lfloor>p\<rfloor> + 1" by (simp add: ceiling_altdef)
    have "p \<noteq> real (n - 1)" using False by auto
    then have "p < real (n - 1)" using pn by simp
    then have "\<lfloor>p\<rfloor> < int (n - 1)" by (simp add: floor_less_iff)
    then have "i + 1 \<le> n - 1" using p0 by (simp add: i_def) linarith
    then have m: "min (i + 1) (n - 1) = i + 1" by simp
    have "0 \<le> \<lfloor>p\<rfloor>" using p0 by simp
    then have "nat \<lceil>p\<rceil> = i + 1" using c by (simp add: i_def nat_add_distrib)
    then show ?thesis using at sp m by (simp add: algebra_simps)
  qed
qed

lemma at_pct_indices:
  assumes ne: "s \<noteq> []" and q0: "0 \<le> q" and q1: "q \<le> 1"
  shows "nat \<lfloor>q * real (length s - 1)\<rfloor> < length s"
    and "min (nat \<lfloor>q * real (length s - 1)\<rfloor> + 1) (length s - 1) < length s"
proof -
  have n0: "0 < length s" using ne by simp
  show "nat \<lfloor>q * real (length s - 1)\<rfloor> < length s"
    using floor_index_in_range(2) [OF position_bounds [OF ne q0 q1] n0] .
  show "min (nat \<lfloor>q * real (length s - 1)\<rfloor> + 1) (length s - 1) < length s"
    using n0 by arith
qed

lemma at_pct_between:
  assumes srt: "sorted s" and ne: "s \<noteq> []" and q0: "0 \<le> q" and q1: "q \<le> 1"
  shows "sample_value s (nat \<lfloor>q * real (length s - 1)\<rfloor>) / 1000 \<le> at_pct s q"
    and "at_pct s q \<le>
      sample_value s (min (nat \<lfloor>q * real (length s - 1)\<rfloor> + 1) (length s - 1)) / 1000"
proof -
  define p where "p = q * real (length s - 1)"
  define i where "i = nat \<lfloor>p\<rfloor>"
  define j where "j = min (i + 1) (length s - 1)"
  define f where "f = p - real i"
  have n0: "0 < length s" using ne by simp
  have p0: "0 \<le> p" and pn: "p \<le> real (length s - 1)"
    using position_bounds [OF ne q0 q1] by (simp_all add: p_def)
  have ri: "real i = of_int \<lfloor>p\<rfloor>" using floor_index_in_range(3) [OF p0 pn n0] by (simp add: i_def)
  have f0: "0 \<le> f" and f1: "f \<le> 1" using ri by (simp_all add: f_def) linarith+
  have "i \<le> length s - 1" using floor_index_in_range(1) [OF p0 pn n0] by (simp add: i_def)
  then have ij: "i \<le> j" and jn: "j < length s" using n0 unfolding j_def by arith+
  have le: "sample_value s i \<le> sample_value s j" using srt ij jn by (rule sample_value_mono)
  have at: "at_pct s q = (sample_value s i * (1 - f) + sample_value s j * f) / 1000"
    using at_pct_unfold [OF ne, of q] by (simp add: Let_def p_def i_def j_def f_def)
  have "sample_value s i * (1 - f) + sample_value s j * f =
      sample_value s i + f * (sample_value s j - sample_value s i)" by (simp add: algebra_simps)
  moreover have "0 \<le> f * (sample_value s j - sample_value s i)" using f0 le by simp
  ultimately have "sample_value s i \<le> sample_value s i * (1 - f) + sample_value s j * f" by simp
  then show "sample_value s (nat \<lfloor>q * real (length s - 1)\<rfloor>) / 1000 \<le> at_pct s q"
    using at by (simp add: i_def p_def)
  have "sample_value s i * (1 - f) + sample_value s j * f =
      sample_value s j - (1 - f) * (sample_value s j - sample_value s i)" by (simp add: algebra_simps)
  moreover have "0 \<le> (1 - f) * (sample_value s j - sample_value s i)" using f1 le by simp
  ultimately have "sample_value s i * (1 - f) + sample_value s j * f \<le> sample_value s j" by simp
  then show "at_pct s q \<le>
      sample_value s (min (nat \<lfloor>q * real (length s - 1)\<rfloor> + 1) (length s - 1)) / 1000"
    using at by (simp add: j_def i_def p_def)
qed

lemma at_pct_mono:
  assumes srt: "sorted s" and ne: "s \<noteq> []"
    and q0: "0 \<le> q1" and q12: "q1 \<le> q2" and q1: "q2 \<le> 1"
  shows "at_pct s q1 \<le> at_pct s q2"
proof -
  define n where "n = length s"
  define p1 where "p1 = q1 * real (n - 1)"
  define p2 where "p2 = q2 * real (n - 1)"
  define i1 where "i1 = nat \<lfloor>p1\<rfloor>"
  define i2 where "i2 = nat \<lfloor>p2\<rfloor>"
  have n0: "0 < n" using ne by (simp add: n_def)
  have q1': "q1 \<le> 1" and q0': "0 \<le> q2" using q0 q12 q1 by simp_all
  have p12: "p1 \<le> p2" using q12 by (simp add: p1_def p2_def mult_right_mono)
  have p1b: "0 \<le> p1" "p1 \<le> real (n - 1)"
    using position_bounds [OF ne q0 q1'] by (simp_all add: p1_def n_def)
  have p2b: "0 \<le> p2" "p2 \<le> real (n - 1)"
    using position_bounds [OF ne q0' q1] by (simp_all add: p2_def n_def)
  have i12: "i1 \<le> i2" using p12 by (simp add: i1_def i2_def floor_mono nat_mono)
  have i2n: "i2 < n" using floor_index_in_range(2) [OF p2b n0] by (simp add: i2_def)
  show ?thesis
  proof (cases "i1 = i2")
    case True
    define j where "j = min (i1 + 1) (n - 1)"
    have ij: "i1 \<le> j" and jn: "j < n" using i2n True n0 unfolding j_def by arith+
    have le: "sample_value s i1 \<le> sample_value s j"
      using srt ij jn by (simp add: sample_value_mono n_def)
    have a1: "at_pct s q1 =
        (sample_value s i1 + (p1 - real i1) * (sample_value s j - sample_value s i1)) / 1000"
      unfolding j_def i1_def p1_def n_def by (rule at_pct_linear [OF ne])
    have "at_pct s q2 =
        (sample_value s i2 + (p2 - real i2) *
           (sample_value s (min (i2 + 1) (n - 1)) - sample_value s i2)) / 1000"
      unfolding i2_def p2_def n_def by (rule at_pct_linear [OF ne])
    then have a2: "at_pct s q2 =
        (sample_value s i1 + (p2 - real i1) * (sample_value s j - sample_value s i1)) / 1000"
      unfolding j_def True .
    have "(p1 - real i1) * (sample_value s j - sample_value s i1)
        \<le> (p2 - real i1) * (sample_value s j - sample_value s i1)"
      using p12 le by (simp add: mult_right_mono)
    then show ?thesis using a1 a2 by simp
  next
    case False
    then have lt: "i1 + 1 \<le> i2" using i12 by simp
    have "at_pct s q1 \<le> sample_value s (min (i1 + 1) (n - 1)) / 1000"
      using at_pct_between(2) [OF srt ne q0 q1'] by (simp add: i1_def p1_def n_def)
    also have "\<dots> \<le> sample_value s i2 / 1000"
    proof -
      have "min (i1 + 1) (n - 1) \<le> i2" using lt by simp
      then have "sample_value s (min (i1 + 1) (n - 1)) \<le> sample_value s i2"
        using srt i2n by (simp add: sample_value_mono n_def)
      then show ?thesis by simp
    qed
    also have "\<dots> \<le> at_pct s q2"
      using at_pct_between(1) [OF srt ne q0' q1] by (simp add: i2_def p2_def n_def)
    finally show ?thesis .
  qed
qed

lemma sorted_first_Min:
  fixes s :: "'a::linorder list"
  assumes "sorted s" and "s \<noteq> []"
  shows "s ! 0 = Min (set s)"
proof (rule sym, rule Min_eqI)
  show "finite (set s)" by simp
  show "s ! 0 \<in> set s" using assms(2) by simp
  fix y assume "y \<in> set s"
  then obtain k where "k < length s" "s ! k = y" by (auto simp: in_set_conv_nth)
  then show "s ! 0 \<le> y" using assms(1) sorted_nth_mono [of s 0 k] by simp
qed

lemma sorted_last_Max:
  fixes s :: "'a::linorder list"
  assumes "sorted s" and "s \<noteq> []"
  shows "s ! (length s - 1) = Max (set s)"
proof (rule sym, rule Max_eqI)
  show "finite (set s)" by simp
  show "s ! (length s - 1) \<in> set s" using assms(2) by simp
  fix y assume "y \<in> set s"
  then obtain k where "k < length s" "s ! k = y" by (auto simp: in_set_conv_nth)
  then show "y \<le> s ! (length s - 1)"
    using assms(1) sorted_nth_mono [of s k "length s - 1"] by auto
qed

lemma at_pct_0:
  assumes "s \<noteq> []"
  shows "at_pct s 0 = sample_value s 0 / 1000"
  using at_pct_unfold [OF assms, of 0] by (simp add: Let_def)

lemma at_pct_1:
  assumes "s \<noteq> []"
  shows "at_pct s 1 = sample_value s (length s - 1) / 1000"
  using at_pct_unfold [OF assms, of 1] by (simp add: Let_def)

lemma pcts_in_unit: "q \<in> set pcts \<Longrightarrow> 0 \<le> q \<and> q \<le> 1"
  by (auto simp add: pcts_def)

lemma sort_not_Nil: "dataNs \<noteq> [] \<Longrightarrow> sort dataNs \<noteq> []"
  by (metis length_0_conv length_sort)

lemma computePercentiles_nonempty:
  "dataNs \<noteq> [] \<Longrightarrow>
   computePercentiles dataNs out =
     (sort dataNs, out @ map (\<lambda>p. (p, at_pct (sort dataNs) p)) pcts)"
  by (simp add: computePercentiles_def Let_def)

text \<open>
  Claim C5. For an empty snapshot \<open>computePercentiles\<close> returns an empty result list (no
  list of zeros). For every non-empty snapshot it sorts the values ascending (the vector
  it leaves is sorted and holds the same values with the same multiplicities) and
  returns, for the quantiles 0.50, 0.90, 0.95, 0.99 and 0.999 in that order, the pair of
  the quantile and \<open>spec_quantile\<close>: the linear interpolation between the order statistics
  at \<open>\<lfloor>p\<rfloor>\<close> and \<open>\<lceil>p\<rceil>\<close>, \<open>p = q (n - 1)\<close>, weighted by the fractional part of \<open>p\<close>,
  divided by 1000. Both order statistics exist. Arithmetic on \<^verbatim>\<open>double\<close> is taken as exact.
\<close>

theorem computePercentiles_interpolates:
  "computePercentiles [] [] = ([], []) \<and>
   (dataNs \<noteq> [] \<longrightarrow>
      fst (computePercentiles dataNs []) = sort dataNs \<and>
      sorted (sort dataNs) \<and> mset (sort dataNs) = mset dataNs \<and>
      snd (computePercentiles dataNs []) =
        map (\<lambda>q. (q, spec_quantile (sort dataNs) q)) [0.50, 0.90, 0.95, 0.99, 0.999] \<and>
      (\<forall>q \<in> set [0.50, 0.90, 0.95, 0.99, 0.999 :: real].
         nat \<lfloor>q * real (length dataNs - 1)\<rfloor> < length (sort dataNs) \<and>
         nat \<lceil>q * real (length dataNs - 1)\<rceil> < length (sort dataNs)))"
proof (intro conjI impI)
  show "computePercentiles [] [] = ([], [])" by (simp add: computePercentiles_def)
next
  assume ne: "dataNs \<noteq> []"
  then have ne': "sort dataNs \<noteq> []" by (rule sort_not_Nil)
  show "fst (computePercentiles dataNs []) = sort dataNs"
    using ne by (simp add: computePercentiles_nonempty)
  show "sorted (sort dataNs)" by simp
  show "mset (sort dataNs) = mset dataNs" by simp
  have "map (\<lambda>p. (p, at_pct (sort dataNs) p)) pcts =
        map (\<lambda>q. (q, spec_quantile (sort dataNs) q)) pcts"
    using pcts_in_unit at_pct_eq_spec [OF ne'] by (intro map_cong) auto
  then show "snd (computePercentiles dataNs []) =
        map (\<lambda>q. (q, spec_quantile (sort dataNs) q)) [0.50, 0.90, 0.95, 0.99, 0.999]"
    using ne by (simp add: computePercentiles_nonempty pcts_def)
  show "\<forall>q \<in> set [0.50, 0.90, 0.95, 0.99, 0.999 :: real].
         nat \<lfloor>q * real (length dataNs - 1)\<rfloor> < length (sort dataNs) \<and>
         nat \<lceil>q * real (length dataNs - 1)\<rceil> < length (sort dataNs)"
  proof
    fix q :: real assume "q \<in> set [0.50, 0.90, 0.95, 0.99, 0.999]"
    then have q: "0 \<le> q" "q \<le> 1" by auto
    have n0: "0 < length dataNs" using ne by simp
    note pb = position_bounds [OF ne q]
    have "nat \<lfloor>q * real (length dataNs - 1)\<rfloor> < length dataNs"
      using floor_index_in_range(2) [OF pb n0] .
    moreover have "nat \<lceil>q * real (length dataNs - 1)\<rceil> < length dataNs"
    proof -
      have "\<lceil>q * real (length dataNs - 1)\<rceil> \<le> int (length dataNs - 1)"
        using pb(2) by (simp add: ceiling_le_iff)
      then show ?thesis using n0 by linarith
    qed
    ultimately show "nat \<lfloor>q * real (length dataNs - 1)\<rfloor> < length (sort dataNs) \<and>
         nat \<lceil>q * real (length dataNs - 1)\<rceil> < length (sort dataNs)" by simp
  qed
qed

lemmas percentile_eval =
  computePercentiles_def at_pct_def spec_quantile_def pcts_def Let_def frac_def

theorem computePercentiles_interpolates_witness:
  "[3000, 1000, 2000, 7000 :: u64] \<noteq> [] \<and>
   computePercentiles [3000, 1000, 2000, 7000] [] =
     ([1000, 2000, 3000, 7000],
      [(1 / 2, 5 / 2), (9 / 10, 29 / 5), (19 / 20, 32 / 5), (99 / 100, 172 / 25),
       (999 / 1000, 1747 / 250)]) \<and>
   map (\<lambda>q. (q, spec_quantile (sort [3000, 1000, 2000, 7000]) q))
       [0.50, 0.90, 0.95, 0.99, 0.999] =
     [(1 / 2, 5 / 2), (9 / 10, 29 / 5), (19 / 20, 32 / 5), (99 / 100, 172 / 25),
      (999 / 1000, 1747 / 250)]"
  using computePercentiles_interpolates [where dataNs = "[3000, 1000, 2000, 7000]"]
  by (simp add: percentile_eval)

text \<open>
  In exact arithmetic the five values are non-decreasing, and the interpolation gives
  the sample minimum at quantile 0 and the sample maximum at quantile 1, in microseconds.
  With the rounding of \<^verbatim>\<open>double\<close> the order can fail, as the section on binary64
  shows.
\<close>

lemma percentiles_monotone_exact:
  assumes ne: "dataNs \<noteq> []"
  shows "length (snd (computePercentiles dataNs [])) = 5 \<and>
    sorted (map snd (snd (computePercentiles dataNs []))) \<and>
    at_pct (fst (computePercentiles dataNs [])) 0 = real (unat (Min (set dataNs))) / 1000 \<and>
    at_pct (fst (computePercentiles dataNs [])) 1 = real (unat (Max (set dataNs))) / 1000"
proof -
  let ?s = "sort dataNs"
  have ne': "?s \<noteq> []" using ne by (rule sort_not_Nil)
  have srt: "sorted ?s" by simp
  have m: "at_pct ?s a \<le> at_pct ?s b" if "0 \<le> a" "a \<le> b" "b \<le> 1" for a b
    using at_pct_mono [OF srt ne' that] .
  have "at_pct ?s 0.5 \<le> at_pct ?s 0.90" by (rule m) simp_all
  moreover have "at_pct ?s 0.90 \<le> at_pct ?s 0.95" by (rule m) simp_all
  moreover have "at_pct ?s 0.95 \<le> at_pct ?s 0.99" by (rule m) simp_all
  moreover have "at_pct ?s 0.99 \<le> at_pct ?s 0.999" by (rule m) simp_all
  ultimately have "sorted (map snd (snd (computePercentiles dataNs [])))"
    using ne by (simp add: computePercentiles_nonempty pcts_def)
  moreover have "length (snd (computePercentiles dataNs [])) = 5"
    using ne by (simp add: computePercentiles_nonempty pcts_def)
  moreover have "at_pct ?s 0 = real (unat (Min (set dataNs))) / 1000"
    using at_pct_0 [OF ne'] sorted_first_Min [OF srt ne'] by (simp add: sample_value_def)
  moreover have "at_pct ?s 1 = real (unat (Max (set dataNs))) / 1000"
    using at_pct_1 [OF ne'] sorted_last_Max [OF srt ne'] by (simp add: sample_value_def)
  ultimately show ?thesis using ne by (simp add: computePercentiles_nonempty)
qed

section \<open>The percentile computation in binary64\<close>

lemma binade_ge_1:
  assumes "1 \<le> \<bar>x\<bar>"
  shows "2 ^ nat (binade x) \<le> \<bar>x\<bar>" and "\<bar>x\<bar> < 2 ^ nat (binade x + 1)" and "0 \<le> binade x"
proof -
  define m where "m = \<lfloor>\<bar>x\<bar>\<rfloor>"
  have m1: "1 \<le> m" using assms by (simp add: m_def le_floor_iff)
  then have m0: "0 < m" by simp
  have e: "binade x = bitlen m - 1" using assms by (simp add: binade_def m_def)
  note b = bitlen_bounds [OF m0]
  have bl: "1 \<le> bitlen m" using m0 by (simp add: bitlen_alt_def)
  show "0 \<le> binade x" using e bl by simp
  have "real_of_int (2 ^ nat (bitlen m - 1)) \<le> real_of_int m" using b by linarith
  also have "\<dots> \<le> \<bar>x\<bar>" by (simp add: m_def)
  finally show "2 ^ nat (binade x) \<le> \<bar>x\<bar>" by (simp add: e)
  have "m + 1 \<le> 2 ^ nat (bitlen m)" using b by linarith
  then have "real_of_int (m + 1) \<le> real_of_int (2 ^ nat (bitlen m))" by linarith
  moreover have "\<bar>x\<bar> < real_of_int (m + 1)" unfolding m_def by linarith
  ultimately have "\<bar>x\<bar> < 2 ^ nat (bitlen m)" by simp
  moreover have "nat (binade x + 1) = nat (bitlen m)" by (simp add: e)
  ultimately show "\<bar>x\<bar> < 2 ^ nat (binade x + 1)" by simp
qed

lemma binade_lt_1:
  assumes "x \<noteq> 0" and "\<bar>x\<bar> < 1"
  shows "1 / 2 ^ nat (- binade x) \<le> \<bar>x\<bar>" and "\<bar>x\<bar> < 2 / 2 ^ nat (- binade x)"
    and "binade x < 0"
proof -
  define y where "y = 1 / \<bar>x\<bar>"
  define c where "c = \<lceil>y\<rceil>"
  define k where "k = bitlen (c - 1)"
  have x0: "0 < \<bar>x\<bar>" using assms(1) by simp
  have y1: "1 < y" using assms(2) x0 by (simp add: y_def)
  have c2: "2 \<le> c" using y1 unfolding c_def by linarith
  then have c0: "0 < c - 1" by simp
  have e: "binade x = - k" using assms(2) by (simp add: binade_def k_def c_def y_def)
  note b = bitlen_bounds [OF c0]
  have k1: "1 \<le> k" using c0 by (simp add: k_def bitlen_alt_def)
  show "binade x < 0" using e k1 by simp
  have ne: "nat (- binade x) = nat k" by (simp add: e)
  have "c \<le> 2 ^ nat k" using b unfolding k_def by linarith
  then have "real_of_int c \<le> real_of_int (2 ^ nat k)" by (simp only: of_int_le_iff)
  moreover have "y \<le> real_of_int c" unfolding c_def by linarith
  moreover have "real_of_int (2 ^ nat k) = 2 ^ nat k" by simp
  ultimately have "y \<le> 2 ^ nat k" by linarith
  then have "1 / \<bar>x\<bar> \<le> 2 ^ nat k" by (simp add: y_def)
  then have "1 \<le> 2 ^ nat k * \<bar>x\<bar>" using x0 by (simp add: field_simps)
  then show "1 / 2 ^ nat (- binade x) \<le> \<bar>x\<bar>" unfolding ne by (simp add: field_simps)
  have "2 ^ nat (k - 1) \<le> c - 1" using b unfolding k_def by linarith
  then have "real_of_int (2 ^ nat (k - 1)) \<le> real_of_int (c - 1)" by (simp only: of_int_le_iff)
  moreover have "real_of_int (c - 1) < y" unfolding c_def by linarith
  moreover have "real_of_int (2 ^ nat (k - 1)) = 2 ^ nat (k - 1)" by simp
  ultimately have "2 ^ nat (k - 1) < y" by linarith
  moreover have "(2 :: real) ^ nat k = 2 * 2 ^ nat (k - 1)"
  proof -
    have "nat k = Suc (nat (k - 1))" using k1 by simp
    then show ?thesis by simp
  qed
  ultimately have "2 ^ nat k < 2 * y" by simp
  then have "2 ^ nat k < 2 / \<bar>x\<bar>" by (simp add: y_def)
  then have "2 ^ nat k * \<bar>x\<bar> < 2" using x0 by (simp add: field_simps)
  then show "\<bar>x\<bar> < 2 / 2 ^ nat (- binade x)" unfolding ne by (simp add: field_simps)
qed

lemma binade_bounds:
  assumes "x \<noteq> 0"
  shows "2 powi binade x \<le> \<bar>x\<bar>" and "\<bar>x\<bar> < 2 powi (binade x + 1)"
proof -
  show "2 powi binade x \<le> \<bar>x\<bar>"
  proof (cases "1 \<le> \<bar>x\<bar>")
    case True
    then show ?thesis using binade_ge_1 [OF True] by (simp add: power_int_def)
  next
    case False
    then have lt: "\<bar>x\<bar> < 1" by simp
    show ?thesis using binade_lt_1 [OF assms lt]
      by (simp add: power_int_def power_one_over inverse_eq_divide)
  qed
  show "\<bar>x\<bar> < 2 powi (binade x + 1)"
  proof (cases "1 \<le> \<bar>x\<bar>")
    case True
    then show ?thesis using binade_ge_1 [OF True] by (simp add: power_int_def)
  next
    case False
    then have lt: "\<bar>x\<bar> < 1" by simp
    note b = binade_lt_1 [OF assms lt]
    have "(2 :: real) powi (binade x + 1) = 2 * 2 powi binade x"
      by (simp add: power_int_add)
    also have "\<dots> = 2 / 2 ^ nat (- binade x)"
      using b(3) by (simp add: power_int_def power_one_over inverse_eq_divide)
    finally show ?thesis using b(2) by simp
  qed
qed

lemma ulp_powi: "ulp x = 2 powi (binade x - 52)"
  by (simp add: ulp_def Let_def power_int_def power_one_over inverse_eq_divide)

lemma ulp_pos: "0 < ulp x"
  by (simp add: ulp_powi)

lemma round_half_even_near: "\<bar>of_int (round_half_even y) - y\<bar> \<le> 1 / 2"
  unfolding round_half_even_def Let_def by (auto; linarith)

lemma round_half_even_tie:
  "\<bar>of_int (round_half_even y) - y\<bar> = 1 / 2 \<Longrightarrow> even (round_half_even y)"
  unfolding round_half_even_def Let_def by (auto split: if_splits; linarith)

lemma round_half_even_lower: "\<lfloor>y\<rfloor> \<le> round_half_even y"
  unfolding round_half_even_def Let_def by auto

lemma round_half_even_upper: "round_half_even y \<le> \<lfloor>y\<rfloor> + 1"
  unfolding round_half_even_def Let_def by auto

lemma round_half_even_mono:
  assumes "a \<le> b"
  shows "round_half_even a \<le> round_half_even b"
proof (cases "\<lfloor>a\<rfloor> = \<lfloor>b\<rfloor>")
  case True
  have "a - of_int \<lfloor>a\<rfloor> \<le> b - of_int \<lfloor>b\<rfloor>" using assms True by simp
  then show ?thesis
    unfolding round_half_even_def Let_def True by auto
next
  case False
  then have "\<lfloor>a\<rfloor> + 1 \<le> \<lfloor>b\<rfloor>" using floor_mono [OF assms] by linarith
  then show ?thesis
    using round_half_even_upper [of a] round_half_even_lower [of b] by linarith
qed

lemma binary64_near: "\<bar>binary64 x - x\<bar> \<le> ulp x / 2"
proof (cases "x = 0")
  case True
  then show ?thesis using ulp_pos [of x] by (simp add: binary64_def)
next
  case False
  let ?u = "ulp x"
  have u: "0 < ?u" by (rule ulp_pos)
  have "binary64 x - x = (of_int (round_half_even (x / ?u)) - x / ?u) * ?u"
    using False u by (simp add: binary64_def field_simps)
  then have "\<bar>binary64 x - x\<bar> = \<bar>of_int (round_half_even (x / ?u)) - x / ?u\<bar> * ?u"
    using u by (simp add: abs_mult)
  also have "\<dots> \<le> 1 / 2 * ?u"
    using round_half_even_near [of "x / ?u"] u by (intro mult_right_mono) simp_all
  finally show ?thesis by simp
qed

lemma binary64_significand:
  assumes "x \<noteq> 0"
  shows "\<bar>round_half_even (x / ulp x)\<bar> \<le> 2 ^ 53" and "2 ^ 52 \<le> \<bar>round_half_even (x / ulp x)\<bar>"
proof -
  let ?u = "ulp x" let ?q = "x / ?u"
  have u: "0 < ?u" by (rule ulp_pos)
  have lo: "2 ^ 52 \<le> \<bar>?q\<bar>"
  proof -
    have "2 ^ 52 * ?u = 2 powi binade x"
      by (simp add: ulp_powi power_int_diff)
    then have "2 ^ 52 * ?u \<le> \<bar>x\<bar>" using binade_bounds(1) [OF assms] by simp
    then show ?thesis using u by (simp add: field_simps abs_mult)
  qed
  have hi: "\<bar>?q\<bar> < 2 ^ 53"
  proof -
    have "2 ^ 53 * ?u = 2 powi (binade x + 1)"
      by (simp add: ulp_powi power_int_diff power_int_add)
    then have "\<bar>x\<bar> < 2 ^ 53 * ?u" using binade_bounds(2) [OF assms] by simp
    then show ?thesis using u by (simp add: field_simps abs_mult)
  qed
  note mono = round_half_even_mono
  have rint: "round_half_even (of_int n) = n" for n
    by (simp add: round_half_even_def Let_def)
  have neg: "round_half_even (- a) = - round_half_even a" for a
  proof (cases "a \<in> \<int>")
    case True
    then obtain n where "a = of_int n" by (auto elim: Ints_cases)
    then show ?thesis using rint [of n] rint [of "- n"] by simp
  next
    case False
    then have c: "\<lfloor>- a\<rfloor> = - \<lfloor>a\<rfloor> - 1"
      by (metis Ints_of_int ceiling_altdef ceiling_def add_diff_cancel_right' minus_diff_eq uminus_add_conv_diff)
    have fr: "a \<noteq> of_int \<lfloor>a\<rfloor>" using False by (metis Ints_of_int)
    show ?thesis
      unfolding round_half_even_def Let_def c using fr
      by (auto split: if_splits; linarith)
  qed
  have abs: "\<bar>round_half_even a\<bar> = round_half_even \<bar>a\<bar>" for a
  proof (cases "0 \<le> a")
    case True
    then have "0 \<le> round_half_even a" using mono [of 0 a] rint [of 0] by simp
    then show ?thesis using True by simp
  next
    case False
    then have "round_half_even a \<le> 0" using mono [of a 0] rint [of 0] by simp
    then show ?thesis using False neg [of a] by simp
  qed
  have "round_half_even \<bar>?q\<bar> \<le> round_half_even (of_int (2 ^ 53))"
    using hi by (intro mono) simp
  then show "\<bar>round_half_even ?q\<bar> \<le> 2 ^ 53" unfolding abs using rint [of "2 ^ 53"] by simp
  have "round_half_even (of_int (2 ^ 52)) \<le> round_half_even \<bar>?q\<bar>"
    using lo by (intro mono) simp
  then show "2 ^ 52 \<le> \<bar>round_half_even ?q\<bar>" unfolding abs using rint [of "2 ^ 52"] by simp
qed

lemmas binary64_eval =
  binary64_def ulp_def binade_def round_half_even_def compute_bitlen Let_def

lemma binary64_values:
  "binary64 0 = 0"
  "binary64 1 = 1"
  "binary64 (6401876989029917) = 6401876989029917"
  "binary64 (1 / 2) = 1 / 2"
  "binary64 (6401876989029917 / 2) = 6401876989029917 / 2"
  "binary64 (6401876989029917 / 1000) = 6555522036766635 / 1024"
  "binary64 (9 / 10) = 8106479329266893 / 9007199254740992"
  "binary64 (8106479329266893 / 9007199254740992) = 8106479329266893 / 9007199254740992"
  "binary64 (900719925474099 / 9007199254740992) = 900719925474099 / 9007199254740992"
  "binary64 (5766298164453376141618319619783 / 9007199254740992) = 1280375397805983 / 2"
  "binary64 (51896683480080398078318854637881 / 9007199254740992) = 5761689290126925"
  "binary64 (12803753978059833 / 2) = 6401876989029916"
  "binary64 (1600469247257479 / 250) = 3277761018383317 / 512"
  "binary64 (19 / 20) = 4278419646001971 / 4503599627370496"
  "binary64 (4278419646001971 / 4503599627370496) = 4278419646001971 / 4503599627370496"
  "binary64 (225179981368525 / 4503599627370496) = 225179981368525 / 4503599627370496"
  "binary64 (1441574541113345635873827162425 / 4503599627370496) = 2560750795611969 / 8"
  "binary64 (27389916281153541474094759966407 / 4503599627370496) = 6081783139578421"
  "binary64 (51215015912239337 / 8) = 6401876989029917"
  "binary64 (99 / 100) = 4458563631096791 / 4503599627370496"
  "binary64 (4458563631096791 / 4503599627370496) = 4458563631096791 / 4503599627370496"
  "binary64 (45035996273705 / 4503599627370496) = 45035996273705 / 4503599627370496"
  "binary64 (288314908222669127174765432485 / 4503599627370496) = 8194402545958301 / 128"
  "binary64 (28543175914044217982793821696347 / 4503599627370496) = 6337858219139618"
  "binary64 (819440254595829405 / 128) = 6401876989029917"
  "binary64 (999 / 1000) = 8998192055486251 / 9007199254740992"
  "binary64 (8998192055486251 / 9007199254740992) = 8998192055486251 / 9007199254740992"
  "binary64 (9007199254741 / 9007199254740992) = 9007199254741 / 9007199254740992"
  "binary64 (57662981644533825434953086497 / 9007199254740992) = 6555522036766641 / 1024"
  "binary64 (57605318662889240394502221171167 / 9007199254740992) = 6395475112040887"
  "binary64 (6555522036766634929 / 1024) = 6401876989029917"
  by (simp_all add: binary64_eval)

text \<open>
  Claim C6 fails on the program. For two equal samples of 6401876989029917 ns the exact
  value of every percentile is the sample itself, 6401876989029.917 microseconds after
  rounding, and this is what the program returns for p50, p95, p99 and p99.9. For p90 the
  two products \<^verbatim>\<open>a * (1.0 - frac)\<close> and \<^verbatim>\<open>a * frac\<close> are rounded to 1280375397805983 / 2
  and 5761689290126925; their sum lies halfway between two binary64 values and is
  rounded to the even one, 6401876989029916, one below the sample. So the program
  returns p90 < p50, and the five values are not in non-decreasing order.
\<close>

theorem percentiles_binary64_inversion:
  "map snd (snd (computePercentiles_binary64 [6401876989029917, 6401876989029917] [])) =
     [6555522036766635 / 1024, 3277761018383317 / 512, 6555522036766635 / 1024, 6555522036766635 / 1024, 6555522036766635 / 1024] \<and>
   \<not> sorted (map snd (snd (computePercentiles_binary64 [6401876989029917, 6401876989029917] [])))"
  unfolding computePercentiles_binary64_def at_binary64_def pcts_def Let_def
  by (simp add: binary64_values)

section \<open>A recorder of capacity 0\<close>

lemma record_gcd_capacity_0:
  "capacity r = 0 \<Longrightarrow> record_gcd draw r v = r\<lparr>seen := seen r + 1\<rparr>"
  by (simp add: record_gcd_def Let_def)

lemma record_mq_capacity_0:
  "capacity r = 0 \<Longrightarrow> record_mq draw r v = r\<lparr>seen := seen r + 1\<rparr>"
  by (simp add: record_mq_def Let_def)

text \<open>
  Claim C7, as amended. On a recorder of capacity 0 a call of \<open>record\<close> (of either
  program) increments \<open>seen\<close> and changes nothing else: the vector, the capacity and
  the generator are as before. Hence after any single-threaded sequence of calls on a
  fresh recorder of capacity 0 the vector is empty and so is the percentile result
  computed from it.
\<close>

theorem record_capacity_zero:
  assumes "capacity r = 0"
  shows "record_gcd draw r v = r\<lparr>seen := seen r + 1\<rparr> \<and>
    record_mq draw r v = r\<lparr>seen := seen r + 1\<rparr> \<and>
    samplesNs (run_gcd draw (new_LatencyRecorder 0 g) vs) = [] \<and>
    samplesNs (run_mq draw (new_LatencyRecorder 0 g) vs) = [] \<and>
    snd (computePercentiles (samplesNs (run_gcd draw (new_LatencyRecorder 0 g) vs)) []) = [] \<and>
    snd (computePercentiles (samplesNs (run_mq draw (new_LatencyRecorder 0 g) vs)) []) = []"
proof -
  have g: "samplesNs (run_gcd draw (new_LatencyRecorder 0 g) vs) = []"
    using after_calls_bounds(1) [OF after_calls_run_gcd [where vs = vs and draw = draw and cap = 0 and g = g]]
    by (simp add: capacity_run_gcd new_LatencyRecorder_def)
  have m: "samplesNs (run_mq draw (new_LatencyRecorder 0 g) vs) = []"
    using after_calls_bounds(1) [OF after_calls_run_mq [where vs = vs and draw = draw and cap = 0 and g = g]]
    by (simp add: capacity_run_mq new_LatencyRecorder_def)
  show ?thesis
    using assms g m
    by (simp add: record_gcd_capacity_0 record_mq_capacity_0 computePercentiles_def)
qed

theorem record_capacity_zero_witness:
  "capacity (new_LatencyRecorder 0 (0 :: u64)) = 0 \<and>
   record_gcd counter_dist (new_LatencyRecorder 0 0) 5 =
     \<lparr>samplesNs = [], capacity = 0, rng = 0, seen = 1\<rparr> \<and>
   record_mq counter_dist (new_LatencyRecorder 0 0) 5 =
     \<lparr>samplesNs = [], capacity = 0, rng = 0, seen = 1\<rparr> \<and>
   snd (computePercentiles (samplesNs (run_mq counter_dist (new_LatencyRecorder 0 0) [5, 6])) []) = []"
  using record_capacity_zero
    [where r = "new_LatencyRecorder 0 (0 :: u64)" and draw = counter_dist and v = 5
       and g = 0 and vs = "[5, 6]"]
  by (simp add: new_LatencyRecorder_def computePercentiles_def)

text \<open>
  Claim C7 as it was stated, that the call leaves the whole state of the recorder
  (vector and counters) unchanged, fails: \<^verbatim>\<open>seen.fetch_add(1)\<close> comes before the test of
  the capacity, so the counter \<open>seen\<close> goes from 0 to 1.
\<close>

theorem record_capacity_zero_counterexample:
  "record_gcd counter_dist (new_LatencyRecorder 0 0) 5 \<noteq> new_LatencyRecorder 0 0 \<and>
   record_mq counter_dist (new_LatencyRecorder 0 0) 5 \<noteq> new_LatencyRecorder 0 0 \<and>
   seen (record_gcd counter_dist (new_LatencyRecorder 0 0) 5) = 1 \<and>
   seen (new_LatencyRecorder 0 (0 :: u64)) = 0"
  by (simp add: recorder_eval)

section \<open>Properties of the worker loops and of the exit status\<close>

text \<open>
  Claim C9. The process of \<^verbatim>\<open>mq_benchmark.cpp\<close> exits with 1 for every invalid
  configuration (message size 0, fewer than one producer or consumer, a duration or a
  maximum of messages below 1); with 2 when the configuration is valid and \<^verbatim>\<open>mq_open\<close> or
  \<^verbatim>\<open>mq_getattr\<close> fails; and with 0 on every completed run, also when the CSV file cannot
  be opened, which is reported with \<^verbatim>\<open>perror\<close> after the notes on capped limits and
  changes nothing else. A run that does not complete ends in \<^verbatim>\<open>abort()\<close> and has no exit
  status of \<^verbatim>\<open>main\<close>.
\<close>

theorem exit_status:
  "(invalid_configuration cfg \<longrightarrow> fst (main_mq cfg env) = Returned 1) \<and>
   (\<not> invalid_configuration cfg \<and> (\<not> mq_open_ok env \<or> \<not> mq_getattr_ok env) \<longrightarrow>
      fst (main_mq cfg env) = Returned 2) \<and>
   (\<not> invalid_configuration cfg \<and> mq_open_ok env \<and> mq_getattr_ok env \<and>
    run_completes cfg env \<longrightarrow>
      fst (main_mq cfg env) = Returned 0) \<and>
   (\<not> invalid_configuration cfg \<and> mq_open_ok env \<and> mq_getattr_ok env \<and>
    \<not> run_completes cfg env \<longrightarrow>
      fst (main_mq cfg env) = Aborted) \<and>
   (\<not> invalid_configuration cfg \<and> mq_open_ok env \<and> mq_getattr_ok env \<and>
    run_completes cfg env \<and> csvPath cfg \<noteq> [] \<and> \<not> fopen_ok env \<longrightarrow>
      main_mq cfg env = (Returned 0, capping_notes cfg env @ [Perror ''fopen csv'']))"
proof (cases "invalid_configuration cfg")
  case True
  then show ?thesis
    by (auto simp add: main_mq_def invalid_configuration_def)
next
  case valid: False
  show ?thesis
  proof (cases "mq_open_ok env \<and> mq_getattr_ok env")
    case False
    with valid show ?thesis
      by (auto simp add: main_mq_def invalid_configuration_def Let_def)
  next
    case opened: True
    show ?thesis
    proof (cases "run_completes cfg env")
      case True
      with valid opened show ?thesis
        by (auto simp add: main_mq_def invalid_configuration_def run_completes_def Let_def)
    next
      case False
      with valid opened show ?thesis
        by (auto simp add: main_mq_def invalid_configuration_def run_completes_def Let_def)
    qed
  qed
qed

lemmas main_eval =
  invalid_configuration_def run_completes_def default_Config_def good_environment_def
  thread_count_def capping_notes_def show_long_def show_nat.simps digit_char_def Let_def

theorem exit_status_witness:
  "invalid_configuration (default_Config\<lparr>messageSize := 0\<rparr>) \<and>
   fst (main_mq (default_Config\<lparr>messageSize := 0\<rparr>) good_environment) = Returned 1 \<and>
   invalid_configuration (default_Config\<lparr>producers := - 1\<rparr>) \<and>
   fst (main_mq (default_Config\<lparr>producers := - 1\<rparr>) good_environment) = Returned 1 \<and>
   \<not> invalid_configuration default_Config \<and>
   \<not> mq_open_ok (good_environment\<lparr>mq_open_ok := False\<rparr>) \<and>
   fst (main_mq default_Config (good_environment\<lparr>mq_open_ok := False\<rparr>)) = Returned 2 \<and>
   \<not> mq_getattr_ok (good_environment\<lparr>mq_getattr_ok := False\<rparr>) \<and>
   fst (main_mq default_Config (good_environment\<lparr>mq_getattr_ok := False\<rparr>)) = Returned 2 \<and>
   mq_open_ok good_environment \<and> mq_getattr_ok good_environment \<and>
   run_completes default_Config good_environment \<and>
   fst (main_mq default_Config good_environment) = Returned 0 \<and>
   \<not> invalid_configuration (default_Config\<lparr>messageSize := 18446744073709551615\<rparr>) \<and>
   \<not> run_completes (default_Config\<lparr>messageSize := 18446744073709551615\<rparr>) good_environment \<and>
   fst (main_mq (default_Config\<lparr>messageSize := 18446744073709551615\<rparr>) good_environment) = Aborted \<and>
   \<not> invalid_configuration (default_Config\<lparr>csvPath := ''/nowhere/out.csv''\<rparr>) \<and>
   run_completes (default_Config\<lparr>csvPath := ''/nowhere/out.csv''\<rparr>)
     (good_environment\<lparr>fopen_ok := False\<rparr>) \<and>
   csvPath (default_Config\<lparr>csvPath := ''/nowhere/out.csv''\<rparr>) \<noteq> [] \<and>
   \<not> fopen_ok (good_environment\<lparr>fopen_ok := False\<rparr>) \<and>
   main_mq (default_Config\<lparr>csvPath := ''/nowhere/out.csv''\<rparr>)
       (good_environment\<lparr>fopen_ok := False\<rparr>) =
     (Returned 0,
      [Cerr ''Note: requested max-messages=1024 exceeds system msg_max=10, capping.'',
       Perror ''fopen csv''])"
  using exit_status [where cfg = "default_Config\<lparr>messageSize := 0\<rparr>" and env = good_environment]
    exit_status [where cfg = "default_Config\<lparr>producers := - 1\<rparr>" and env = good_environment]
    exit_status [where cfg = default_Config and env = "good_environment\<lparr>mq_open_ok := False\<rparr>"]
    exit_status [where cfg = default_Config and env = "good_environment\<lparr>mq_getattr_ok := False\<rparr>"]
    exit_status [where cfg = default_Config and env = good_environment]
    exit_status [where cfg = "default_Config\<lparr>messageSize := 18446744073709551615\<rparr>" and env = good_environment]
    exit_status [where cfg = "default_Config\<lparr>csvPath := ''/nowhere/out.csv''\<rparr>"
      and env = "good_environment\<lparr>fopen_ok := False\<rparr>"]
  by (simp add: main_eval)

lemma u64_sub_no_underflow:
  fixes a b :: u64
  assumes "a \<le> b"
  shows "uint (b - a) = uint b - uint a" and "0 \<le> uint b - uint a"
proof -
  from assms have le: "uint a \<le> uint b" by (simp add: word_le_def)
  from assms show "uint (b - a) = uint b - uint a" by (simp add: uint_minus_simple_alt)
  from le show "0 \<le> uint b - uint a" by simp
qed

text \<open>
  Claim C8. For a received message that carries a header, the consumer loop of
  \<^verbatim>\<open>mq_benchmark.cpp\<close> and the completion block of \<^verbatim>\<open>gcd_benchmark.cpp\<close> call \<open>record\<close>
  with \<open>now - sendTimeNs\<close> when \<open>sendTimeNs \<le> now\<close> and leave the recorder alone otherwise.
  So whenever \<open>record\<close> is called, the 64-bit subtraction has not wrapped around: its
  result is the difference of the two timestamps as integers, which is not negative.
  A message without a header never reaches the recorder.
\<close>

theorem latency_never_underflows:
  "(header buf = Some h \<and> sizeof_MsgHeader \<le> n \<longrightarrow>
      fst (snd (consumer_iteration draw (Received n buf) now (stats, latRecorder, slept))) =
        (if sendTimeNs h \<le> now then record_mq draw latRecorder (now - sendTimeNs h)
         else latRecorder) \<and>
      snd (gcd_completion draw n buf now (gstats, latRecorder)) =
        (if sendTimeNs h \<le> now then record_gcd draw latRecorder (now - sendTimeNs h)
         else latRecorder) \<and>
      (sendTimeNs h \<le> now \<longrightarrow>
         uint (now - sendTimeNs h) = uint now - uint (sendTimeNs h) \<and>
         0 \<le> uint now - uint (sendTimeNs h))) \<and>
   (header buf = None \<or> n < sizeof_MsgHeader \<longrightarrow>
      fst (snd (consumer_iteration draw (Received n buf) now (stats, latRecorder, slept))) =
        latRecorder \<and>
      snd (gcd_completion draw n buf now (gstats, latRecorder)) = latRecorder)"
proof (intro conjI impI)
  assume a: "header buf = Some h \<and> sizeof_MsgHeader \<le> n"
  then show "fst (snd (consumer_iteration draw (Received n buf) now (stats, latRecorder, slept))) =
        (if sendTimeNs h \<le> now then record_mq draw latRecorder (now - sendTimeNs h)
         else latRecorder)"
    by (simp add: consumer_iteration_def Let_def)
  from a show "snd (gcd_completion draw n buf now (gstats, latRecorder)) =
        (if sendTimeNs h \<le> now then record_gcd draw latRecorder (now - sendTimeNs h)
         else latRecorder)"
    by (simp add: gcd_completion_def Let_def)
next
  assume "sendTimeNs h \<le> now"
  then show "uint (now - sendTimeNs h) = uint now - uint (sendTimeNs h)"
    and "0 \<le> uint now - uint (sendTimeNs h)"
    by (rule u64_sub_no_underflow)+
next
  assume "header buf = None \<or> n < sizeof_MsgHeader"
  then show "fst (snd (consumer_iteration draw (Received n buf) now (stats, latRecorder, slept))) =
        latRecorder"
    by (auto simp add: consumer_iteration_def Let_def split: option.split)
next
  assume "header buf = None \<or> n < sizeof_MsgHeader"
  then show "snd (gcd_completion draw n buf now (gstats, latRecorder)) = latRecorder"
    by (auto simp add: gcd_completion_def Let_def split: option.split)
qed

theorem latency_never_underflows_witness:
  "header \<lparr>header = Some \<lparr>sequence = 3, sendTimeNs = 1000\<rparr>, payload = []\<rparr> =
     Some \<lparr>sequence = 3, sendTimeNs = 1000\<rparr> \<and>
   sizeof_MsgHeader \<le> 16 \<and>
   sendTimeNs \<lparr>sequence = 3, sendTimeNs = 1000\<rparr> \<le> 1500 \<and>
   samplesNs (fst (snd (consumer_iteration counter_dist
     (Received 16 \<lparr>header = Some \<lparr>sequence = 3, sendTimeNs = 1000\<rparr>, payload = []\<rparr>) 1500
     (new_Stats, new_LatencyRecorder 2 0, [])))) = [500] \<and>
   samplesNs (snd (gcd_completion counter_dist 16
     \<lparr>header = Some \<lparr>sequence = 3, sendTimeNs = 1000\<rparr>, payload = []\<rparr> 1500
     (new_gcd_Stats, new_LatencyRecorder 2 0))) = [500] \<and>
   uint (1500 - sendTimeNs \<lparr>sequence = 3, sendTimeNs = 1000\<rparr>) = 500 \<and>
   fst (snd (consumer_iteration counter_dist
     (Received 16 \<lparr>header = Some \<lparr>sequence = 3, sendTimeNs = 1000\<rparr>, payload = []\<rparr>) 900
     (new_Stats, new_LatencyRecorder 2 0, []))) = new_LatencyRecorder 2 0 \<and>
   header \<lparr>header = None, payload = [0, 0, 0, 0]\<rparr> = None \<and>
   fst (snd (consumer_iteration counter_dist
     (Received 4 \<lparr>header = None, payload = [0, 0, 0, 0]\<rparr>) 1500
     (new_Stats, new_LatencyRecorder 2 0, []))) = new_LatencyRecorder 2 0"
  using latency_never_underflows
      [where buf = "\<lparr>header = Some \<lparr>sequence = 3, sendTimeNs = 1000\<rparr>, payload = []\<rparr>"
         and h = "\<lparr>sequence = 3, sendTimeNs = 1000\<rparr>" and n = 16 and now = 1500
         and draw = counter_dist and stats = new_Stats and gstats = new_gcd_Stats
         and latRecorder = "new_LatencyRecorder 2 0" and slept = "[]"]
    latency_never_underflows
      [where buf = "\<lparr>header = Some \<lparr>sequence = 3, sendTimeNs = 1000\<rparr>, payload = []\<rparr>"
         and h = "\<lparr>sequence = 3, sendTimeNs = 1000\<rparr>" and n = 16 and now = 900
         and draw = counter_dist and stats = new_Stats and gstats = new_gcd_Stats
         and latRecorder = "new_LatencyRecorder 2 0" and slept = "[]"]
    latency_never_underflows
      [where buf = "\<lparr>header = None, payload = [0, 0, 0, 0]\<rparr>"
         and n = 4 and now = 1500
         and draw = counter_dist and stats = new_Stats and gstats = new_gcd_Stats
         and latRecorder = "new_LatencyRecorder 2 0" and slept = "[]"]
  by (simp add: sizeof_MsgHeader_def record_mq_def record_gcd_def new_LatencyRecorder_def Let_def)


lemma producer_iteration_header:
  "header (p_buffer (producer_iteration draw_word cfg now res p)) =
     (case header (p_buffer p) of None \<Rightarrow> None
      | Some h \<Rightarrow> Some \<lparr>sequence = p_seq p, sendTimeNs = now\<rparr>)"
  by (simp add: producer_iteration_def Let_def
      split: option.split prod.split send_result.split)

lemma producer_iteration_seq:
  "p_seq (producer_iteration draw_word cfg now res p) =
     (case header (p_buffer p) of None \<Rightarrow> p_seq p | Some h \<Rightarrow> p_seq p + 1)"
  by (simp add: producer_iteration_def Let_def
      split: option.split prod.split send_result.split)

lemma producer_iteration_stats_failed:
  "p_stats (producer_iteration draw_word cfg now (SendFailed e) p) =
     (if e = EAGAIN \<or> e = ETIMEDOUT
      then (p_stats p)\<lparr>sendEagain := sendEagain (p_stats p) + 1\<rparr>
      else (p_stats p)\<lparr>sendErrors := sendErrors (p_stats p) + 1\<rparr>)"
  by (simp add: producer_iteration_def Let_def split: option.split prod.split)

lemma producer_iteration_slept_failed:
  "p_slept (producer_iteration draw_word cfg now (SendFailed e) p) =
     (if e = EAGAIN \<or> e = ETIMEDOUT then p_slept p @ [50] else p_slept p @ [100])"
  by (simp add: producer_iteration_def Let_def split: option.split prod.split)

lemma producer_iteration_no_header_fixed:
  "header (p_buffer p) = None \<Longrightarrow> \<not> randomPayload cfg \<Longrightarrow>
   p_buffer (producer_iteration draw_word cfg now res p) = p_buffer p"
  by (simp add: producer_iteration_def Let_def split: send_result.split)

lemma u64_succ_neq: "(x :: u64) + 1 \<noteq> x"
  by simp

text \<open>
  Claim C4, as amended. When a send fails in the producer loop, \<^verbatim>\<open>EAGAIN\<close> and
  \<^verbatim>\<open>ETIMEDOUT\<close> add one to \<open>sendEagain\<close> and are followed by a sleep of 50 microseconds;
  every other error adds one to \<open>sendErrors\<close> and is followed by a sleep of 100
  microseconds; no other counter changes. The next iteration does not send the failed
  message again: with a header in the payload it sends a message with the next sequence
  number and the timestamp of that iteration. Without a header and without random
  payload the buffer is never written, and the next message has the bytes of the failed
  one, as every message has.
\<close>

theorem send_failure_handling:
  "(let p' = producer_iteration draw_word cfg now (SendFailed e) p;
        p'' = producer_iteration draw_word cfg now' res' p'
    in (e = EAGAIN \<or> e = ETIMEDOUT \<longrightarrow>
          p_stats p' = (p_stats p)\<lparr>sendEagain := sendEagain (p_stats p) + 1\<rparr> \<and>
          p_slept p' = p_slept p @ [50]) \<and>
       (e \<noteq> EAGAIN \<and> e \<noteq> ETIMEDOUT \<longrightarrow>
          p_stats p' = (p_stats p)\<lparr>sendErrors := sendErrors (p_stats p) + 1\<rparr> \<and>
          p_slept p' = p_slept p @ [100]) \<and>
       (header (p_buffer p) \<noteq> None \<longrightarrow>
          header (p_buffer p') = Some \<lparr>sequence = p_seq p, sendTimeNs = now\<rparr> \<and>
          header (p_buffer p'') = Some \<lparr>sequence = p_seq p + 1, sendTimeNs = now'\<rparr> \<and>
          \<not> same_message_retried draw_word cfg p now e now' res') \<and>
       (header (p_buffer p) = None \<and> \<not> randomPayload cfg \<longrightarrow>
          same_message_retried draw_word cfg p now e now' res'))"
proof -
  let ?p' = "producer_iteration draw_word cfg now (SendFailed e) p"
  let ?p'' = "producer_iteration draw_word cfg now' res' ?p'"
  have a: "e = EAGAIN \<or> e = ETIMEDOUT \<longrightarrow>
          p_stats ?p' = (p_stats p)\<lparr>sendEagain := sendEagain (p_stats p) + 1\<rparr> \<and>
          p_slept ?p' = p_slept p @ [50]"
    by (simp add: producer_iteration_stats_failed producer_iteration_slept_failed)
  have b: "e \<noteq> EAGAIN \<and> e \<noteq> ETIMEDOUT \<longrightarrow>
          p_stats ?p' = (p_stats p)\<lparr>sendErrors := sendErrors (p_stats p) + 1\<rparr> \<and>
          p_slept ?p' = p_slept p @ [100]"
    by (simp add: producer_iteration_stats_failed producer_iteration_slept_failed)
  have c: "header (p_buffer ?p') = Some \<lparr>sequence = p_seq p, sendTimeNs = now\<rparr> \<and>
          header (p_buffer ?p'') = Some \<lparr>sequence = p_seq p + 1, sendTimeNs = now'\<rparr> \<and>
          \<not> same_message_retried draw_word cfg p now e now' res'"
    if h: "header (p_buffer p) \<noteq> None"
  proof -
    from h obtain h0 where h0: "header (p_buffer p) = Some h0" by auto
    have h1: "header (p_buffer ?p') = Some \<lparr>sequence = p_seq p, sendTimeNs = now\<rparr>"
      by (simp add: producer_iteration_header h0)
    have s1: "p_seq ?p' = p_seq p + 1"
      by (simp add: producer_iteration_seq h0)
    have h2: "header (p_buffer ?p'') = Some \<lparr>sequence = p_seq p + 1, sendTimeNs = now'\<rparr>"
      by (simp add: producer_iteration_header [where p = ?p'] h1 s1)
    have "header (p_buffer ?p'') \<noteq> header (p_buffer ?p')"
      unfolding h1 h2 using u64_succ_neq [of "p_seq p"] by simp
    then have "p_buffer ?p'' \<noteq> p_buffer ?p'" by auto
    then have "\<not> same_message_retried draw_word cfg p now e now' res'"
      by (simp add: same_message_retried_def)
    with h1 h2 show ?thesis by simp
  qed
  have d: "same_message_retried draw_word cfg p now e now' res'"
    if n: "header (p_buffer p) = None \<and> \<not> randomPayload cfg"
  proof -
    have b1: "p_buffer ?p' = p_buffer p"
      using n by (simp add: producer_iteration_no_header_fixed)
    then have "p_buffer ?p'' = p_buffer ?p'"
      using n by (simp add: producer_iteration_no_header_fixed)
    then show ?thesis by (simp add: same_message_retried_def)
  qed
  show ?thesis using a b c d by (simp add: Let_def)
qed


lemmas producer_eval =
  producer_iteration_def new_producer_def new_buffer_def new_Stats_def default_Config_def
  sizeof_MsgHeader_def same_message_retried_def Let_def

theorem send_failure_handling_witness:
  "header (p_buffer (new_producer default_Config (0 :: u32) new_Stats)) \<noteq> None \<and>
   p_stats (producer_iteration counter32 default_Config 100 (SendFailed EAGAIN)
     (new_producer default_Config 0 new_Stats)) = new_Stats\<lparr>sendEagain := 1\<rparr> \<and>
   p_slept (producer_iteration counter32 default_Config 100 (SendFailed EAGAIN)
     (new_producer default_Config 0 new_Stats)) = [50] \<and>
   EBADF \<noteq> EAGAIN \<and> EBADF \<noteq> ETIMEDOUT \<and>
   p_stats (producer_iteration counter32 default_Config 100 (SendFailed EBADF)
     (new_producer default_Config 0 new_Stats)) = new_Stats\<lparr>sendErrors := 1\<rparr> \<and>
   p_slept (producer_iteration counter32 default_Config 100 (SendFailed EBADF)
     (new_producer default_Config 0 new_Stats)) = [100] \<and>
   header (p_buffer (producer_iteration counter32 default_Config 200 SendOk
     (producer_iteration counter32 default_Config 100 (SendFailed EAGAIN)
       (new_producer default_Config 0 new_Stats)))) =
     Some \<lparr>sequence = 1, sendTimeNs = 200\<rparr> \<and>
   header (p_buffer (new_producer (default_Config\<lparr>messageSize := 8\<rparr>) (0 :: u32) new_Stats)) = None \<and>
   \<not> randomPayload (default_Config\<lparr>messageSize := 8\<rparr>) \<and>
   same_message_retried counter32 (default_Config\<lparr>messageSize := 8\<rparr>)
     (new_producer (default_Config\<lparr>messageSize := 8\<rparr>) 0 new_Stats) 100 EAGAIN 200 SendOk"
  using send_failure_handling
      [where draw_word = counter32 and cfg = default_Config and now = 100 and e = EAGAIN
         and p = "new_producer default_Config 0 new_Stats" and now' = 200 and res' = SendOk]
    send_failure_handling
      [where draw_word = counter32 and cfg = default_Config and now = 100 and e = EBADF
         and p = "new_producer default_Config 0 new_Stats" and now' = 200 and res' = SendOk]
    send_failure_handling
      [where draw_word = counter32 and cfg = "default_Config\<lparr>messageSize := 8\<rparr>" and now = 100
         and e = EAGAIN and p = "new_producer (default_Config\<lparr>messageSize := 8\<rparr>) 0 new_Stats"
         and now' = 200 and res' = SendOk]
  by (simp add: producer_eval)

text \<open>
  Claim C4 as it was stated, that the same message (same sequence number and timestamp)
  is sent again, fails for the default configuration: the send of message 0, stamped 100,
  fails with \<^verbatim>\<open>EAGAIN\<close>; the next iteration sends message 1, stamped 200, and after its
  success one message has been sent. Message 0 is never sent again.
\<close>

theorem same_message_retried_counterexample:
  "\<not> same_message_retried counter32 default_Config
       (new_producer default_Config 0 new_Stats) 100 EAGAIN 200 SendOk \<and>
   header (p_buffer (producer_iteration counter32 default_Config 100 (SendFailed EAGAIN)
     (new_producer default_Config 0 new_Stats))) =
     Some \<lparr>sequence = 0, sendTimeNs = 100\<rparr> \<and>
   header (p_buffer (producer_iteration counter32 default_Config 200 SendOk
     (producer_iteration counter32 default_Config 100 (SendFailed EAGAIN)
       (new_producer default_Config 0 new_Stats)))) =
     Some \<lparr>sequence = 1, sendTimeNs = 200\<rparr> \<and>
   sentMessages (p_stats (producer_iteration counter32 default_Config 200 SendOk
     (producer_iteration counter32 default_Config 100 (SendFailed EAGAIN)
       (new_producer default_Config 0 new_Stats)))) = 1"
  by (simp add: producer_eval)

end
